theory Spec2Isabelle
  imports Complex_Main
begin

section \<open>The game scene of innerorbit-game/src/main.js\<close>

text \<open>
  The scene is glue over a 2D engine: its callbacks read and write a few scene fields
  and call methods of engine objects. The model keeps, for every game object, the
  fields the callbacks read or the engine methods they call write (position, velocity,
  \<open>body.touching.down\<close>, \<open>body.enable\<close>, \<open>active\<close>, \<open>visible\<close>, \<open>pipeline\<close>), and it
  keeps a history of the engine calls the callbacks issue, in order (\<open>calls\<close>), so that
  a statement about what a callback does, and not only about the state it leaves, can
  be written down.

  Numbers: a JavaScript number is a binary64 double, taken here as the real it
  denotes. Coordinates and velocities are only stored and compared by the callbacks;
  where the code computes with doubles (the random draw of \<open>Phaser.Math.Between\<close>,
  the frame time of the pipeline) every operation is rounded by \<open>binary64\<close> below.
  The score is a JavaScript number that only ever holds an integer; it is an \<open>int\<close>
  here, which is exact as long as the score stays in the range where doubles are exact
  on integers (below \<open>2 ^ 53\<close>).
\<close>

subsection \<open>Binary64 arithmetic\<close>

text \<open>
  \<open>binary64 x\<close> is the double nearest to the real \<open>x\<close>: \<open>x\<close> is rounded to a multiple of
  \<open>2 ^ (e - 52)\<close>, where \<open>2 ^ e \<le> |x| < 2 ^ (e + 1)\<close>, to the nearest one and to the one
  with an even multiplier when two are equally near. A JavaScript operation on doubles
  returns the exact result rounded in this way. The subnormal range and overflow are
  left out: what is rounded here is zero or far inside the normal range (a random
  value times 401, plus at most 400; a frame time between \<open>2 ^ - 7\<close> and \<open>2 ^ 47\<close>).
\<close>

definition round_even :: "real \<Rightarrow> int" where
  "round_even x =
     (let f = \<lfloor>x\<rfloor>; d = x - of_int f
      in if d < 1 / 2 then f else if 1 / 2 < d then f + 1
         else if even f then f else f + 1)"

definition exponent :: "real \<Rightarrow> int" where
  "exponent x = \<lfloor>log 2 \<bar>x\<bar>\<rfloor>"

definition binary64 :: "real \<Rightarrow> real" where
  "binary64 x =
     (if x = 0 then 0
      else of_int (round_even (x / 2 powi (exponent x - 52))) * 2 powi (exponent x - 52))"

subsection \<open>Game objects and engine methods\<close>

datatype pipeline = MultiPipeline | WavePipeline

record sprite =
  obj_x :: real
  obj_y :: real
  velocityX :: real
  velocityY :: real
  touching_down :: bool
  enable :: bool
  active :: bool
  visible :: bool
  pipeline :: "pipeline option"

text \<open>
  A game object as the engine's factories make it: at the given position, at rest,
  active, visible, and rendered by the engine's default pipeline. \<open>None\<close> stands for a
  falsy \<open>pipeline\<close> property, which the update callback tests for.
\<close>

definition new_sprite :: "real \<Rightarrow> real \<Rightarrow> sprite" where
  "new_sprite px py =
     \<lparr> obj_x = px, obj_y = py, velocityX = 0, velocityY = 0, touching_down = False,
       enable = True, active = True, visible = True, pipeline = Some MultiPipeline \<rparr>"

text \<open>The methods of game objects that the scene calls, with their arguments.\<close>

datatype meth =
    SetPipeline string
  | ResetPipeline
  | SetVelocityX real
  | SetVelocityY real
  | SetVelocity real real
  | SetBounce real
  | SetCollideWorldBounds bool
  | SetTint nat
  | AnimsPlay string bool
  | DisableBody bool bool
  | EnableBody bool real real bool bool

text \<open>
  What a call does to the modelled fields of the object it is called on.
  \<open>setPipeline\<close> looks the name up among the registered pipelines (the scene registers
  only \<open>Wave\<close>) and leaves the object alone when there is none; \<open>resetPipeline\<close> goes
  back to the default pipeline. \<open>disableBody\<close> stops the body and disables it, and
  deactivates and hides the object when asked to; \<open>enableBody\<close> is its inverse, with
  an optional reset of the body to a position. Bounce, world bounds, tint and the
  animation are not read by the scene: those calls only show in the history.
\<close>

fun effect :: "meth \<Rightarrow> sprite \<Rightarrow> sprite" where
  "effect (SetPipeline name) ob =
     (if name = ''Wave'' then ob\<lparr>pipeline := Some WavePipeline\<rparr> else ob)"
| "effect ResetPipeline ob = ob\<lparr>pipeline := Some MultiPipeline\<rparr>"
| "effect (SetVelocityX v) ob = ob\<lparr>velocityX := v\<rparr>"
| "effect (SetVelocityY v) ob = ob\<lparr>velocityY := v\<rparr>"
| "effect (SetVelocity vx vy) ob = ob\<lparr>velocityX := vx, velocityY := vy\<rparr>"
| "effect (SetBounce b) ob = ob"
| "effect (SetCollideWorldBounds b) ob = ob"
| "effect (SetTint c) ob = ob"
| "effect (AnimsPlay key ignoreIfPlaying) ob = ob"
| "effect (DisableBody disableGameObject hideGameObject) ob =
     ob\<lparr>velocityX := 0, velocityY := 0, enable := False,
        active := (if disableGameObject then False else active ob),
        visible := (if hideGameObject then False else visible ob)\<rparr>"
| "effect (EnableBody reset px py enableGameObject showGameObject) ob =
     (let ob1 = (if reset
                 then ob\<lparr>velocityX := 0, velocityY := 0, obj_x := px, obj_y := py\<rparr>
                 else ob)
      in ob1\<lparr>active := (if enableGameObject then True else active ob1),
             visible := (if showGameObject then True else visible ob1),
             enable := True\<rparr>)"

fun effects :: "meth list \<Rightarrow> sprite \<Rightarrow> sprite" where
  "effects [] ob = ob"
| "effects (m # ms) ob = effects ms (effect m ob)"

subsection \<open>The scene\<close>

datatype grp = Platforms | Stars | Bombs

datatype obj = Sky | Player | Child grp nat

datatype call =
    Call obj meth
  | SetText string
  | BombsCreate real real string
  | PhysicsPause
  | SceneRestart

record scene =
  sky :: sprite
  platforms :: "sprite list"
  player :: sprite
  stars :: "sprite list"
  bombs :: "sprite list"
  score :: int
  scoreText :: string
  gameOver :: bool
  gameOverText_visible :: bool
  shaderEnabled :: bool
  physics_paused :: bool
  restart_queued :: bool
  calls :: "call list"

record cursors =
  left_isDown :: bool
  right_isDown :: bool
  up_isDown :: bool
  space_isDown :: bool

fun children :: "grp \<Rightarrow> scene \<Rightarrow> sprite list" where
  "children Platforms s = platforms s"
| "children Stars s = stars s"
| "children Bombs s = bombs s"

fun set_children :: "grp \<Rightarrow> sprite list \<Rightarrow> scene \<Rightarrow> scene" where
  "set_children Platforms cs s = s\<lparr>platforms := cs\<rparr>"
| "set_children Stars cs s = s\<lparr>stars := cs\<rparr>"
| "set_children Bombs cs s = s\<lparr>bombs := cs\<rparr>"

fun on_obj :: "obj \<Rightarrow> (sprite \<Rightarrow> sprite) \<Rightarrow> scene \<Rightarrow> scene" where
  "on_obj Sky f s = s\<lparr>sky := f (sky s)\<rparr>"
| "on_obj Player f s = s\<lparr>player := f (player s)\<rparr>"
| "on_obj (Child g i) f s = set_children g ((children g s)[i := f (children g s ! i)]) s"

definition emit :: "call list \<Rightarrow> scene \<Rightarrow> scene" where
  "emit cs s = s\<lparr>calls := calls s @ cs\<rparr>"

text \<open>One call of a method of one game object.\<close>

definition invoke :: "obj \<Rightarrow> meth \<Rightarrow> scene \<Rightarrow> scene" where
  "invoke ob m s = emit [Call ob m] (on_obj ob (effect m) s)"

text \<open>
  \<open>group.children.each(body)\<close> and \<open>group.children.iterate(body)\<close>, for a body that
  calls methods of the child it is given: \<open>body\<close> maps a child to the methods called
  on it, in order. Children are visited in the order of the group.
\<close>

definition each_child :: "grp \<Rightarrow> (sprite \<Rightarrow> meth list) \<Rightarrow> scene \<Rightarrow> scene" where
  "each_child g body s =
     (let cs = children g s
      in emit (concat (map (\<lambda>i. map (Call (Child g i)) (body (cs ! i))) [0..<length cs]))
           (set_children g (map (\<lambda>child. effects (body child) child) cs) s))"

text \<open>\<open>group.countActive(value)\<close>: the number of children whose \<open>active\<close> is \<open>value\<close>.\<close>

definition countActive :: "bool \<Rightarrow> sprite list \<Rightarrow> nat" where
  "countActive v cs = length (filter (\<lambda>child. active child = v) cs)"

text \<open>\<open>this.bombs.create(x, y, key)\<close>: a new sprite, added at the end of the group.\<close>

definition bombs_create :: "real \<Rightarrow> real \<Rightarrow> string \<Rightarrow> scene \<Rightarrow> scene" where
  "bombs_create px py key s =
     emit [BombsCreate px py key] (s\<lparr>bombs := bombs s @ [new_sprite px py]\<rparr>)"

text \<open>\<open>this.scoreText.setText(t)\<close>.\<close>

definition setText :: "string \<Rightarrow> scene \<Rightarrow> scene" where
  "setText t s = emit [SetText t] (s\<lparr>scoreText := t\<rparr>)"

text \<open>
  The engine's \<open>Phaser.Math.Between(min, max)\<close>, which computes
  \<open>Math.floor(Math.random() * (max - min + 1) + min)\<close> in doubles: the product and the
  sum are each rounded (\<open>max - min + 1\<close> is a small integer and exact). The third
  argument is the value \<open>Math.random()\<close> returned, a double in \<open>[0, 1)\<close>; the largest
  such double is \<open>1 - 2 ^ - 53\<close>.
\<close>

definition Between :: "int \<Rightarrow> int \<Rightarrow> real \<Rightarrow> int" where
  "Between lo hi r = \<lfloor>binary64 (binary64 (r * of_int (hi - lo + 1)) + of_int lo)\<rfloor>"

definition largest_random :: real where
  "largest_random = 1 - 1 / 2 ^ 53"

text \<open>
  String concatenation with a number converts the number as \<open>Number.prototype.toString\<close>
  does; for an integer that is its decimal digits, after a minus sign when negative.
\<close>

fun digits :: "nat \<Rightarrow> string" where
  "digits n = (if n < 10 then [''0123456789'' ! n]
               else digits (n div 10) @ [''0123456789'' ! (n mod 10)])"

declare digits.simps [simp del]

definition number_toString :: "int \<Rightarrow> string" where
  "number_toString n = (if n < 0 then CHR ''-'' # digits (nat (- n)) else digits (nat n))"

subsection \<open>The pipeline class\<close>

text \<open>
  \<open>WaveShaderPipeline\<close> hands two shader sources to the engine's pipeline class and
  keeps a frame time. The constructor sets \<open>this.time = 0\<close>; \<open>onPreRender\<close> calls
  \<open>this.set1f('uTime', this.time)\<close> and then \<open>this.time += 0.01\<close>. The state is the time
  and the values handed to \<open>set1f\<close> so far, in order (the engine narrows each to a
  32-bit float for the shader; the model keeps the double that was passed). The
  literal \<open>0.01\<close> is the double nearest to one hundredth, and the sum is rounded.
  Nothing in the scene reads the time; of the pipeline, the scene only uses the name
  \<open>Wave\<close> under which \<open>create\<close> registers it.
\<close>

record wave_pipeline =
  time :: real
  uploads :: "real list"

definition WaveShaderPipeline :: wave_pipeline where
  "WaveShaderPipeline = \<lparr> time = 0, uploads = [] \<rparr>"

definition onPreRender :: "wave_pipeline \<Rightarrow> wave_pipeline" where
  "onPreRender p =
     (let p1 = p\<lparr>uploads := uploads p @ [time p]\<rparr>
      in p1\<lparr>time := binary64 (time p1 + binary64 (1 / 100))\<rparr>)"

text \<open>The pipeline after \<open>n\<close> rendered frames.\<close>

definition frames :: "nat \<Rightarrow> wave_pipeline" where
  "frames n = (onPreRender ^^ n) WaveShaderPipeline"

text \<open>The doubles (of the normal range): zero, and the 53-bit multiples of a power of two.\<close>

definition representable :: "real \<Rightarrow> bool" where
  "representable t \<longleftrightarrow>
     t = 0 \<or> (\<exists>k n. 2 ^ 52 \<le> n \<and> n < 2 ^ 53 \<and> t = of_int n * 2 powi (k - 52))"

subsection \<open>The callbacks of ShaderScene\<close>

text \<open>
  \<open>create\<close>. The sky image, the four platforms, the player and the twelve stars (at
  \<open>x = 12 + 70 k\<close>, \<open>y = 0\<close>) are made and each is given the \<open>Wave\<close> pipeline; the bomb
  group is empty; the score, the two texts and the three flags are initialised. The
  physics world of a scene that starts is running, and nothing is queued in the scene
  manager. The sky is an image and has no body. The history starts empty: it records
  the calls of the callbacks that run after \<open>create\<close>. What \<open>create\<close> sets up
  besides is not state the callbacks read: the scale of the ground, the bounce of
  the player and of the stars, the world bounds, the three animations and the help
  text. The colliders, the cursor keys and the two input handlers it registers are
  the events of the next subsection.
\<close>

definition create :: scene where
  "create =
     \<lparr> sky = effect (SetPipeline ''Wave'') ((new_sprite 400 300)\<lparr>enable := False\<rparr>),
       platforms = map (effect (SetPipeline ''Wave''))
         [new_sprite 400 568, new_sprite 600 400, new_sprite 50 250, new_sprite 750 220],
       player = effect (SetPipeline ''Wave'') (new_sprite 100 450),
       stars = map (\<lambda>k. effect (SetPipeline ''Wave'') (new_sprite (12 + 70 * real k) 0))
         [0..<12],
       bombs = [],
       score = 0,
       scoreText = ''Score: 0'',
       gameOver = False,
       gameOverText_visible = False,
       shaderEnabled = True,
       physics_paused = False,
       restart_queued = False,
       calls = [] \<rparr>"

text \<open>The \<open>pointerdown\<close> handler; \<open>scene.restart()\<close> queues the restart.\<close>

definition scene_restart :: "scene \<Rightarrow> scene" where
  "scene_restart s = emit [SceneRestart] (s\<lparr>restart_queued := True\<rparr>)"

definition pointerdown :: "scene \<Rightarrow> scene" where
  "pointerdown s = (if gameOver s then scene_restart s else s)"

text \<open>The \<open>keydown-S\<close> handler.\<close>

definition keydown_S :: "scene \<Rightarrow> scene" where
  "keydown_S s =
     (let s0 = s\<lparr>shaderEnabled := \<not> shaderEnabled s\<rparr>
      in if shaderEnabled s0 then
           (let s1 = invoke Sky (SetPipeline ''Wave'') s0;
                s2 = each_child Platforms (\<lambda>child. [SetPipeline ''Wave'']) s1;
                s3 = each_child Stars (\<lambda>child. [SetPipeline ''Wave'']) s2;
                s4 = invoke Player (SetPipeline ''Wave'') s3
            in each_child Bombs (\<lambda>child. [SetPipeline ''Wave'']) s4)
         else
           (let s1 = invoke Sky ResetPipeline s0;
                s2 = each_child Platforms (\<lambda>child. [ResetPipeline]) s1;
                s3 = each_child Stars (\<lambda>child. [ResetPipeline]) s2;
                s4 = invoke Player ResetPipeline s3
            in each_child Bombs (\<lambda>child. [ResetPipeline]) s4))"

text \<open>\<open>update\<close>, with the key states it polls.\<close>

definition update :: "cursors \<Rightarrow> scene \<Rightarrow> scene" where
  "update c s =
     (if gameOver s then s
      else
        (let s1 = (if left_isDown c then
                     invoke Player (AnimsPlay ''left'' True)
                       (invoke Player (SetVelocityX (- 160)) s)
                   else if right_isDown c then
                     invoke Player (AnimsPlay ''right'' True)
                       (invoke Player (SetVelocityX 160) s)
                   else
                     invoke Player (AnimsPlay ''turn'' False)
                       (invoke Player (SetVelocityX 0) s));
             s2 = (if (up_isDown c \<or> space_isDown c) \<and> touching_down (player s1)
                   then invoke Player (SetVelocityY (- 350)) s1 else s1)
         in if shaderEnabled s2 then
              each_child Bombs
                (\<lambda>child. if pipeline child = None then [SetPipeline ''Wave''] else []) s2
            else s2))"

text \<open>
  \<open>collectStar(player, star)\<close>. The overlap is registered between \<open>this.player\<close> and
  \<open>this.stars\<close>, so \<open>player\<close> is the scene's player and \<open>star\<close> is a child of the star
  group, given here by its index. \<open>r1\<close> and \<open>r2\<close> are the values of \<open>Math.random()\<close>
  behind the two calls of \<open>Phaser.Math.Between\<close> that the branch makes (of the two
  calls in the conditional expression only one is evaluated).
\<close>

definition collectStar :: "scene \<Rightarrow> nat \<Rightarrow> real \<Rightarrow> real \<Rightarrow> scene" where
  "collectStar s i r1 r2 =
     (let s1 = invoke (Child Stars i) (DisableBody True True) s;
          s2 = s1\<lparr>score := score s1 + 10\<rparr>;
          s3 = setText (''Score: '' @ number_toString (score s2)) s2
      in if countActive True (stars s3) = 0 then
           (let s4 = each_child Stars
                       (\<lambda>child. EnableBody True (obj_x child) 0 True True #
                                (if shaderEnabled s3 then [SetPipeline ''Wave''] else [])) s3;
                bx = (if obj_x (player s4) < 400 then Between 400 800 r1
                      else Between 0 400 r1);
                b = Child Bombs (length (bombs s4));
                s5 = bombs_create (of_int bx) 16 ''bomb'' s4;
                s6 = invoke b (SetBounce 1) s5;
                s7 = invoke b (SetCollideWorldBounds True) s6;
                s8 = invoke b (SetVelocity (of_int (Between (- 200) 200 r2)) 20) s7
            in if shaderEnabled s8 then invoke b (SetPipeline ''Wave'') s8 else s8)
         else s3)"

text \<open>
  \<open>hitBomb(player, bomb)\<close>; \<open>player\<close> is the scene's player, the bomb (given by its
  index) is not used.
\<close>

definition hitBomb :: "scene \<Rightarrow> nat \<Rightarrow> scene" where
  "hitBomb s j =
     (let s1 = emit [PhysicsPause] (s\<lparr>physics_paused := True\<rparr>);
          s2 = invoke Player (SetTint 0xff0000) s1;
          s3 = invoke Player (AnimsPlay ''turn'' False) s2;
          s4 = s3\<lparr>gameOver := True\<rparr>
      in s4\<lparr>gameOverText_visible := True\<rparr>)"

subsection \<open>What the engine does with the scene\<close>

text \<open>
  The engine calls the scene, and it is the engine that moves the bodies; neither is
  code of the scene. The events below are what \<open>create\<close> registers (the overlap of
  the player with the stars, the collider of the player with the bombs, the two input
  handlers), the \<open>update\<close> of every frame, the motion of the bodies in a step of the
  physics world, and the restart that the scene manager carries out once it is
  queued. Nothing is assumed about when the engine raises an event: any event can
  follow any other, in any state. In particular a star overlap can be reported after
  \<open>hitBomb\<close> has paused the world; whether the engine ever does so is not decided by
  the code of the scene. An overlap or a collision names a child of the group it was
  registered for, and a new position is given to enabled bodies only.
\<close>

record motion =
  to_x :: real
  to_y :: real
  to_velocityX :: real
  to_velocityY :: real
  to_touching_down :: bool

definition moved :: "motion \<Rightarrow> sprite \<Rightarrow> sprite" where
  "moved m ob =
     (if enable ob
      then ob\<lparr>obj_x := to_x m, obj_y := to_y m, velocityX := to_velocityX m,
              velocityY := to_velocityY m, touching_down := to_touching_down m\<rparr>
      else ob)"

fun moved_all :: "motion list \<Rightarrow> sprite list \<Rightarrow> sprite list" where
  "moved_all (m # ms) (ob # obs) = moved m ob # moved_all ms obs"
| "moved_all [] obs = obs"
| "moved_all ms [] = []"

definition world_step :: "motion \<Rightarrow> motion list \<Rightarrow> motion list \<Rightarrow> scene \<Rightarrow> scene" where
  "world_step mp mss mbs s =
     s\<lparr>player := moved mp (player s), stars := moved_all mss (stars s),
       bombs := moved_all mbs (bombs s)\<rparr>"

datatype event =
    Frame cursors
  | StarOverlap nat real real
  | BombCollision nat
  | PointerDown
  | KeyDownS
  | WorldStep motion "motion list" "motion list"
  | Restart

text \<open>\<open>fire e s\<close> is the scene after the event, or \<open>None\<close> when the event names no
  child of its group or when no restart is queued.\<close>

fun fire :: "event \<Rightarrow> scene \<Rightarrow> scene option" where
  "fire (Frame c) s = Some (update c s)"
| "fire (StarOverlap i r1 r2) s =
     (if i < length (stars s) then Some (collectStar s i r1 r2) else None)"
| "fire (BombCollision j) s =
     (if j < length (bombs s) then Some (hitBomb s j) else None)"
| "fire PointerDown s = Some (pointerdown s)"
| "fire KeyDownS s = Some (keydown_S s)"
| "fire (WorldStep mp mss mbs) s = Some (world_step mp mss mbs s)"
| "fire Restart s = (if restart_queued s then Some create else None)"


fun run :: "event list \<Rightarrow> scene \<Rightarrow> scene option" where
  "run [] s = Some s"
| "run (e # es) s = (case fire e s of None \<Rightarrow> None | Some s' \<Rightarrow> run es s')"

text \<open>The states of the scene: what \<open>create\<close> leaves, and what events make of it.\<close>

inductive reachable :: "scene \<Rightarrow> bool" where
  created: "reachable create"
| fired: "reachable s \<Longrightarrow> fire e s = Some s' \<Longrightarrow> reachable s'"

text \<open>The calls a callback added to the history, given the scene before and after.\<close>

definition new_calls :: "scene \<Rightarrow> scene \<Rightarrow> call list" where
  "new_calls s s' = drop (length (calls s)) (calls s')"

text \<open>The pipeline of every object the shader toggle handles.\<close>

definition pipelines_of ::
  "scene \<Rightarrow> pipeline option \<times> pipeline option list \<times> pipeline option list \<times>
     pipeline option \<times> pipeline option list" where
  "pipelines_of s =
     (pipeline (sky s), map pipeline (platforms s), map pipeline (stars s),
      pipeline (player s), map pipeline (bombs s))"

text \<open>
  \<open>last_active s i\<close>: no star of the group other than star \<open>i\<close> is active, so that
  disabling star \<open>i\<close> leaves no active star.
\<close>

definition last_active :: "scene \<Rightarrow> nat \<Rightarrow> bool" where
  "last_active s i \<longleftrightarrow>
     (\<forall>j\<in>set [0..<length (stars s)]. j \<noteq> i \<longrightarrow> \<not> active (stars s ! j))"

text \<open>
  The pipeline that goes with the shader flag, and the scenes in which every object
  the toggle handles is on that pipeline.
\<close>

definition shader_pipeline :: "scene \<Rightarrow> pipeline option" where
  "shader_pipeline s = Some (if shaderEnabled s then WavePipeline else MultiPipeline)"

definition shader_consistent :: "scene \<Rightarrow> bool" where
  "shader_consistent s \<longleftrightarrow>
     pipeline (sky s) = shader_pipeline s \<and>
     (\<forall>ob\<in>set (platforms s). pipeline ob = shader_pipeline s) \<and>
     (\<forall>ob\<in>set (stars s). pipeline ob = shader_pipeline s) \<and>
     pipeline (player s) = shader_pipeline s \<and>
     (\<forall>ob\<in>set (bombs s). pipeline ob = shader_pipeline s)"

text \<open>
  An example game, used to instantiate the results below: the player, who never moves,
  is reported to overlap the stars \<open>0, 1, \<dots>, n - 1\<close> in turn (the twelfth overlap
  respawns the stars and drops the first bomb), with left and up held down.
\<close>

definition collect_stars :: "nat \<Rightarrow> event list" where
  "collect_stars n = map (\<lambda>i. StarOverlap i (1 / 2) 0) [0..<n]"

definition keys_left_up :: cursors where
  "keys_left_up =
     \<lparr> left_isDown = True, right_isDown = False, up_isDown = True, space_isDown = False \<rparr>"

definition landed :: motion where
  "landed = \<lparr> to_x = 100, to_y = 514, to_velocityX = 0, to_velocityY = 0,
               to_touching_down = True \<rparr>"

section \<open>The tutorial scene of src/main.js\<close>

text \<open>
  The three callbacks use the loader (its base URL and the images asked for, each a
  key and a URL) and the display list (the images added, each a position and a
  texture key).
\<close>

record tutorial =
  baseURL :: string
  load_images :: "(string \<times> string) list"
  display_list :: "(real \<times> real \<times> string) list"

definition tutorial_preload :: "tutorial \<Rightarrow> tutorial" where
  "tutorial_preload t =
     (let t1 = t\<lparr>baseURL := ''https://labs.phaser.io''\<rparr>
      in t1\<lparr>load_images := load_images t1 @ [(''sky'', ''assets/skies/space3.png'')]\<rparr>)"

definition tutorial_create :: "tutorial \<Rightarrow> tutorial" where
  "tutorial_create t = t\<lparr>display_list := display_list t @ [(400, 300, ''sky'')]\<rparr>"

definition tutorial_update :: "tutorial \<Rightarrow> tutorial" where
  "tutorial_update t = t"


section \<open>Properties\<close>

subsection \<open>Rounding to binary64\<close>

lemma round_even_le: "x < of_int n + 1 / 2 \<Longrightarrow> round_even x \<le> n"
  unfolding round_even_def Let_def by (auto; linarith)

lemma round_even_ge: "of_int n - 1 / 2 < x \<Longrightarrow> n \<le> round_even x"
  unfolding round_even_def Let_def by (auto; linarith)

lemma round_even_of_int [simp]: "round_even (of_int n) = n"
  unfolding round_even_def Let_def by simp

lemma pow2_powr: "2 powr (of_int k) = (2::real) powi k"
  by (simp add: powr_real_of_int')

lemma exponent_eq:
  assumes "2 powi k \<le> \<bar>x\<bar>" "\<bar>x\<bar> < 2 powi (k + 1)"
  shows "exponent x = k"
proof -
  have pos: "0 < \<bar>x\<bar>" using assms(1) zero_less_power_int[of "2::real" k] by linarith
  have "2 powr (of_int k) \<le> \<bar>x\<bar> \<and> \<bar>x\<bar> < 2 powr (of_int k + 1)"
    using assms pow2_powr[of k] pow2_powr[of "k + 1"] by simp
  then show ?thesis
    unfolding exponent_def using floor_log_eq_powr_iff[of "\<bar>x\<bar>" 2 k] pos by simp
qed

lemma exponent_bounds:
  assumes "x \<noteq> 0"
  shows "2 powi exponent x \<le> \<bar>x\<bar>" "\<bar>x\<bar> < 2 powi (exponent x + 1)"
proof -
  have pos: "0 < \<bar>x\<bar>" using assms by simp
  have "2 powr (of_int (exponent x)) \<le> \<bar>x\<bar> \<and> \<bar>x\<bar> < 2 powr (of_int (exponent x) + 1)"
    using floor_log_eq_powr_iff[of "\<bar>x\<bar>" 2 "exponent x"] pos by (simp add: exponent_def)
  then show "2 powi exponent x \<le> \<bar>x\<bar>" "\<bar>x\<bar> < 2 powi (exponent x + 1)"
    using pow2_powr[of "exponent x"] pow2_powr[of "exponent x + 1"] by simp_all
qed

lemma binary64_at:
  assumes "2 powi k \<le> \<bar>x\<bar>" "\<bar>x\<bar> < 2 powi (k + 1)"
  shows "binary64 x = of_int (round_even (x / 2 powi (k - 52))) * 2 powi (k - 52)"
proof -
  have "0 < (2::real) powi k" by simp
  with assms(1) have "0 < \<bar>x\<bar>" by linarith
  then have "x \<noteq> 0" by simp
  then show ?thesis by (simp add: binary64_def exponent_eq[OF assms])
qed

lemma pw_split:
  "(2::real) powi j = 2 ^ 52 * 2 powi (j - 52)"
  "(2::real) powi (j + 1) = 2 ^ 53 * 2 powi (j - 52)"
proof -
  have "(2::real) powi (52 + (j - 52)) = 2 powi 52 * 2 powi (j - 52)"
    by (rule power_int_add) simp
  then show "(2::real) powi j = 2 ^ 52 * 2 powi (j - 52)" by simp
  have "(2::real) powi (53 + (j - 52)) = 2 powi 53 * 2 powi (j - 52)"
    by (rule power_int_add) simp
  moreover have "53 + (j - 52) = j + 1" by simp
  ultimately show "(2::real) powi (j + 1) = 2 ^ 53 * 2 powi (j - 52)" by simp
qed

lemma pw_less_exp: "(2::real) powi a < 2 powi b \<Longrightarrow> a < b"
proof (rule ccontr)
  assume l: "(2::real) powi a < 2 powi b" and "\<not> a < b"
  then have "b \<le> a" by simp
  then have "(2::real) powi b \<le> 2 powi a" by (rule power_int_increasing) simp
  with l show False by simp
qed

lemma pw_mono: "a \<le> b \<Longrightarrow> (2::real) powi a \<le> 2 powi b"
  by (rule power_int_increasing) simp_all

lemma binary64_pos:
  assumes "0 < x"
  shows "binary64 x = of_int (round_even (x / 2 powi (exponent x - 52))) * 2 powi (exponent x - 52)"
    and "2 ^ 52 \<le> x / 2 powi (exponent x - 52)"
    and "x / 2 powi (exponent x - 52) < 2 ^ 53"
proof -
  let ?e = "exponent x"
  let ?u = "(2::real) powi (?e - 52)"
  have u: "0 < ?u" by simp
  have x0: "x \<noteq> 0" using assms by simp
  show "binary64 x = of_int (round_even (x / ?u)) * ?u" using x0 by (simp add: binary64_def)
  from exponent_bounds[OF x0] assms
  have "2 powi ?e \<le> x" "x < 2 powi (?e + 1)" by simp_all
  then have "2 ^ 52 * ?u \<le> x" "x < 2 ^ 53 * ?u" using pw_split[of ?e] by simp_all
  then show "2 ^ 52 \<le> x / ?u" "x / ?u < 2 ^ 53" using u by (simp_all add: field_simps)
qed

lemma binary64_range:
  assumes "0 < x"
  shows "2 powi exponent x \<le> binary64 x" "binary64 x \<le> 2 powi (exponent x + 1)"
proof -
  let ?e = "exponent x"
  let ?u = "(2::real) powi (?e - 52)"
  let ?m = "round_even (x / ?u)"
  note b = binary64_pos[OF assms]
  have u: "0 < ?u" by simp
  have c52: "(of_int (2 ^ 52) :: real) = 2 ^ 52" and c53: "(of_int (2 ^ 53) :: real) = 2 ^ 53"
    by simp_all
  have "of_int (2 ^ 52) - 1 / 2 < x / ?u" unfolding c52 using b(2) by linarith
  then have "2 ^ 52 \<le> ?m" by (rule round_even_ge)
  then have "(2::real) ^ 52 \<le> of_int ?m" by (metis of_int_le_iff of_int_numeral of_int_power)
  then have "2 ^ 52 * ?u \<le> of_int ?m * ?u" using u by simp
  then show "2 powi ?e \<le> binary64 x" using pw_split(1)[of ?e] b(1) by simp
  have "x / ?u < of_int (2 ^ 53) + 1 / 2" unfolding c53 using b(3) by linarith
  then have "?m \<le> 2 ^ 53" by (rule round_even_le)
  then have "of_int ?m \<le> (2::real) ^ 53" by (metis of_int_le_iff of_int_numeral of_int_power)
  then have "of_int ?m * ?u \<le> 2 ^ 53 * ?u" using u by simp
  then show "binary64 x \<le> 2 powi (?e + 1)" using pw_split(2)[of ?e] b(1) by simp
qed


lemma pw_succ: "(2::real) powi (j + 1) = 2 * 2 powi j"
  using power_int_add_1[of "2::real" j] by simp

lemma binary64_le:
  assumes "0 < x" "2 ^ 52 \<le> n" "n \<le> 2 ^ 53"
    and "x < (of_int n + 1 / 2) * 2 powi (k - 52)"
  shows "binary64 x \<le> of_int n * 2 powi (k - 52)"
proof -
  define e where "e = exponent x"
  define u where "u = (2::real) powi (e - 52)"
  define v where "v = (2::real) powi (k - 52)"
  define A where "A = (2::real) ^ 52"
  define rn where "rn = (of_int n :: real)"
  have u: "0 < u" and v: "0 < v" and A: "0 < A" by (simp_all add: u_def v_def A_def)
  have rn: "A \<le> rn" "rn \<le> 2 * A"
  proof -
    have "(of_int (2 ^ 52) :: real) \<le> of_int n" using assms(2) by (simp only: of_int_le_iff)
    then show "A \<le> rn" by (simp add: A_def rn_def)
    have "(of_int n :: real) \<le> of_int (2 ^ 53)" using assms(3) by (simp only: of_int_le_iff)
    then show "rn \<le> 2 * A" by (simp add: A_def rn_def)
  qed
  have pk: "2 powi k = A * v" "2 powi (k + 1) = 2 * A * v"
    using pw_split[of k] by (simp_all add: A_def v_def)
  have pe: "2 powi e = A * u" "2 powi (e + 1) = 2 * A * u"
    using pw_split[of e] by (simp_all add: A_def u_def)
  have xb: "2 powi e \<le> x" "x < 2 powi (e + 1)"
    using exponent_bounds[of x] assms(1) by (simp_all add: e_def)
  have bx: "binary64 x = of_int (round_even (x / u)) * u"
    using binary64_pos(1)[OF assms(1)] by (simp add: e_def u_def)
  have xv: "x < (rn + 1 / 2) * v" using assms(4) by (simp add: rn_def v_def)
  consider (lt) "e < k" | (eq) "e = k" | (gt) "k < e" by linarith
  then have "binary64 x \<le> rn * v"
  proof cases
    case lt
    have "binary64 x \<le> 2 powi (e + 1)"
      using binary64_range(2)[OF assms(1)] by (simp add: e_def)
    also have "\<dots> \<le> 2 powi k" using lt by (intro pw_mono) simp
    also have "\<dots> = A * v" by (rule pk(1))
    also have "\<dots> \<le> rn * v" using rn(1) v by simp
    finally show ?thesis .
  next
    case eq
    then have uv: "u = v" by (simp add: u_def v_def)
    have "x / v < of_int n + 1 / 2" using xv v by (simp add: rn_def field_simps)
    then have "round_even (x / v) \<le> n" by (rule round_even_le)
    then have "of_int (round_even (x / v)) \<le> rn" by (simp add: rn_def)
    then show ?thesis using bx uv v by simp
  next
    case gt
    then have "k + 1 \<le> e" by simp
    then have "2 powi (k + 1) \<le> (2::real) powi e" by (rule pw_mono)
    with xb(1) pk(2) have lo: "2 * A * v \<le> x" by simp
    with xv have "2 * A * v < (rn + 1 / 2) * v" by simp
    with v have "2 * A < rn + 1 / 2" by simp
    have rn_eq: "rn = 2 * A"
    proof (rule ccontr)
      assume "rn \<noteq> 2 * A"
      with rn(2) have "rn < 2 * A" by simp
      then have "of_int n < (of_int (2 ^ 53) :: real)" by (simp add: rn_def A_def)
      then have "n < 2 ^ 53" by (simp only: of_int_less_iff)
      then have "n \<le> 2 ^ 53 - 1" by simp
      then have "(of_int n :: real) \<le> of_int (2 ^ 53 - 1)" by (simp only: of_int_le_iff)
      then have "rn \<le> 2 * A - 1" by (simp add: rn_def A_def)
      with \<open>2 * A < rn + 1 / 2\<close> show False by simp
    qed
    have "x < (2 * A + 1 / 2) * v" using xv rn_eq by simp
    also have "\<dots> < 4 * A * v"
    proof -
      have "1 \<le> A" by (simp add: A_def)
      then have "2 * A + 1 / 2 < 4 * A" by simp
      with v show ?thesis by simp
    qed
    also have "\<dots> = 2 powi (k + 2)"
      using pw_succ[of "k + 1"] pk(2) by (simp add: add.assoc)
    finally have "x < 2 powi (k + 2)" .
    with xb(1) have "(2::real) powi e < 2 powi (k + 2)" by simp
    then have "e < k + 2" by (rule pw_less_exp)
    with gt have e: "e = k + 1" by simp
    have uv: "u = 2 * v" using pw_succ[of "k - 52"] by (simp add: u_def v_def e)
    have "x / u < A + 1 / 4"
    proof -
      have "x < (A + 1 / 4) * u" using \<open>x < (2 * A + 1 / 2) * v\<close> uv by (simp add: algebra_simps)
      with u show ?thesis by (simp add: field_simps)
    qed
    moreover have "(of_int (2 ^ 52) :: real) = A" by (simp add: A_def)
    ultimately have "x / u < of_int (2 ^ 52) + 1 / 2" by linarith
    then have "round_even (x / u) \<le> 2 ^ 52" by (rule round_even_le)
    then have "(of_int (round_even (x / u)) :: real) \<le> of_int (2 ^ 52)"
      by (simp only: of_int_le_iff)
    then have "of_int (round_even (x / u)) \<le> A" by (simp add: A_def)
    then have "of_int (round_even (x / u)) * u \<le> A * u" using u by simp
    then show ?thesis using bx uv rn_eq by simp
  qed
  then show ?thesis by (simp add: rn_def v_def)
qed


lemma binary64_ge:
  assumes "0 < x" "n \<le> 2 ^ 53"
    and "(of_int n - 1 / 2) * 2 powi (k - 52) < x" "2 powi k \<le> x"
  shows "of_int n * 2 powi (k - 52) \<le> binary64 x"
proof -
  define e where "e = exponent x"
  define u where "u = (2::real) powi (e - 52)"
  define v where "v = (2::real) powi (k - 52)"
  define A where "A = (2::real) ^ 52"
  define rn where "rn = (of_int n :: real)"
  have u: "0 < u" and v: "0 < v" and A: "0 < A" by (simp_all add: u_def v_def A_def)
  have rn: "rn \<le> 2 * A"
  proof -
    have "(of_int n :: real) \<le> of_int (2 ^ 53)" using assms(2) by (simp only: of_int_le_iff)
    then show "rn \<le> 2 * A" by (simp add: A_def rn_def)
  qed
  have pk: "2 powi (k + 1) = 2 * A * v"
    using pw_split[of k] by (simp_all add: A_def v_def)
  have xb: "x < 2 powi (e + 1)"
    using exponent_bounds[of x] assms(1) by (simp_all add: e_def)
  have bx: "binary64 x = of_int (round_even (x / u)) * u"
    using binary64_pos(1)[OF assms(1)] by (simp add: e_def u_def)
  have xv: "(rn - 1 / 2) * v < x" using assms(3) by (simp add: rn_def v_def)
  from assms(4) xb have "(2::real) powi k < 2 powi (e + 1)" by simp
  then have "k < e + 1" by (rule pw_less_exp)
  then consider (eq) "e = k" | (gt) "k < e" by linarith
  then have "rn * v \<le> binary64 x"
  proof cases
    case eq
    then have uv: "u = v" by (simp add: u_def v_def)
    have "of_int n - 1 / 2 < x / v" using xv v by (simp add: rn_def field_simps)
    then have "n \<le> round_even (x / v)" by (rule round_even_ge)
    then have "rn \<le> of_int (round_even (x / v))" by (simp add: rn_def)
    then show ?thesis using bx uv v by simp
  next
    case gt
    have "rn * v \<le> 2 * A * v" using rn v by simp
    also have "\<dots> = 2 powi (k + 1)" by (simp add: pk)
    also have "\<dots> \<le> 2 powi e" using gt by (intro pw_mono) simp
    also have "\<dots> \<le> binary64 x" using binary64_range(1)[OF assms(1)] by (simp add: e_def)
    finally show ?thesis .
  qed
  then show ?thesis by (simp add: rn_def v_def)
qed

lemma binary64_repr:
  assumes "0 < x"
  shows "\<exists>k n. 2 ^ 52 \<le> n \<and> n < 2 ^ 53 \<and> binary64 x = of_int n * 2 powi (k - 52)"
proof -
  define e where "e = exponent x"
  define u where "u = (2::real) powi (e - 52)"
  define m where "m = round_even (x / u)"
  have bx: "binary64 x = of_int m * u"
    using binary64_pos(1)[OF assms] by (simp add: e_def u_def m_def)
  have c52: "(of_int (2 ^ 52) :: real) = 2 ^ 52" and c53: "(of_int (2 ^ 53) :: real) = 2 ^ 53"
    by simp_all
  have q: "2 ^ 52 \<le> x / u" "x / u < 2 ^ 53"
    unfolding u_def e_def by (rule binary64_pos(2,3)[OF assms])+
  have "of_int (2 ^ 52) - 1 / 2 < x / u" unfolding c52 using q(1) by linarith
  then have lo: "2 ^ 52 \<le> m" unfolding m_def by (rule round_even_ge)
  have "x / u < of_int (2 ^ 53) + 1 / 2" unfolding c53 using q(2) by linarith
  then have hi: "m \<le> 2 ^ 53" unfolding m_def by (rule round_even_le)
  show ?thesis
  proof (cases "m < 2 ^ 53")
    case True
    with lo bx show ?thesis unfolding u_def by blast
  next
    case False
    with hi have "m = 2 ^ 53" by simp
    then have "binary64 x = 2 ^ 53 * u" using bx by simp
    also have "\<dots> = 2 ^ 52 * 2 powi ((e + 1) - 52)"
      using pw_succ[of "e - 52"] by (simp add: u_def)
    finally have "binary64 x = of_int (2 ^ 52) * 2 powi ((e + 1) - 52)" by simp
    moreover have "(2::int) ^ 52 \<le> 2 ^ 52 \<and> (2::int) ^ 52 < 2 ^ 53" by simp
    ultimately show ?thesis by blast
  qed
qed

subsection \<open>The random integer and the frame time\<close>

lemma binary64_nonneg: "0 \<le> x \<Longrightarrow> 0 \<le> binary64 x"
proof (cases "x = 0")
  case True
  then show ?thesis by (simp add: binary64_def)
next
  case False
  assume "0 \<le> x"
  with False have x: "0 < x" by simp
  have "0 < (2::real) powi exponent x" by simp
  with binary64_range(1)[OF x] show ?thesis by linarith
qed

lemma product_bound:
  assumes "0 \<le> r" "r \<le> 1 - 1 / 2 ^ 53"
  shows "0 \<le> binary64 (r * 401)" "binary64 (r * 401) \<le> 401 - 1 / 2 ^ 44"
proof -
  show "0 \<le> binary64 (r * 401)" using assms(1) by (intro binary64_nonneg) simp
  show "binary64 (r * 401) \<le> 401 - 1 / 2 ^ 44"
  proof (cases "r = 0")
    case True
    then show ?thesis by (simp add: binary64_def)
  next
    case False
    with assms(1) have x: "0 < r * 401" by simp
    have "r * 401 \<le> (1 - 1 / 2 ^ 53) * 401" using assms(2) by simp
    also have "\<dots> < (of_int (401 * 2 ^ 44 - 1) + 1 / 2) * 2 powi (8 - 52)" by simp
    finally have "binary64 (r * 401) \<le> of_int (401 * 2 ^ 44 - 1) * 2 powi (8 - 52)"
      by (intro binary64_le[OF x]) simp_all
    then show ?thesis by simp
  qed
qed

lemma product_bound_52:
  assumes "0 \<le> r" "r \<le> 1 - 1 / 2 ^ 52"
  shows "binary64 (r * 401) \<le> 401 - 1 / 2 ^ 43"
proof (cases "r = 0")
  case True
  then show ?thesis by (simp add: binary64_def)
next
  case False
  with assms(1) have x: "0 < r * 401" by simp
  have "r * 401 \<le> (1 - 1 / 2 ^ 52) * 401" using assms(2) by simp
  also have "\<dots> < (of_int (401 * 2 ^ 44 - 2) + 1 / 2) * 2 powi (8 - 52)" by simp
  finally have "binary64 (r * 401) \<le> of_int (401 * 2 ^ 44 - 2) * 2 powi (8 - 52)"
    by (intro binary64_le[OF x]) simp_all
  then show ?thesis by simp
qed

lemma sum_bound:
  assumes "0 \<le> y" "y \<le> 401 - 1 / 2 ^ 44"
  shows "400 \<le> binary64 (y + 400)" "binary64 (y + 400) \<le> 801"
proof -
  have x: "0 < y + 400" using assms(1) by simp
  have "(of_int (400 * 2 ^ 44) - 1 / 2) * 2 powi (8 - 52) < y + 400" using assms(1) by simp
  moreover have "2 powi 8 \<le> y + 400" using assms(1) by simp
  ultimately have "of_int (400 * 2 ^ 44) * 2 powi (8 - 52) \<le> binary64 (y + 400)"
    by (intro binary64_ge[OF x]) simp_all
  then show "400 \<le> binary64 (y + 400)" by simp
  have "y + 400 < (of_int (801 * 2 ^ 43) + 1 / 2) * 2 powi (9 - 52)" using assms(2) by simp
  then have "binary64 (y + 400) \<le> of_int (801 * 2 ^ 43) * 2 powi (9 - 52)"
    by (intro binary64_le[OF x]) simp_all
  then show "binary64 (y + 400) \<le> 801" by simp
qed

lemma sum_bound_52:
  assumes "0 \<le> y" "y \<le> 401 - 1 / 2 ^ 43"
  shows "binary64 (y + 400) < 801"
proof -
  have x: "0 < y + 400" using assms(1) by simp
  have "y + 400 < (of_int (801 * 2 ^ 43 - 1) + 1 / 2) * 2 powi (9 - 52)" using assms(2) by simp
  then have "binary64 (y + 400) \<le> of_int (801 * 2 ^ 43 - 1) * 2 powi (9 - 52)"
    by (intro binary64_le[OF x]) simp_all
  then show ?thesis by simp
qed

lemma binary64_keeps_bound:
  assumes "0 \<le> y" "y \<le> 401 - 1 / 2 ^ 44"
  shows "binary64 y \<le> 401 - 1 / 2 ^ 44"
proof (cases "y = 0")
  case True
  then show ?thesis by (simp add: binary64_def)
next
  case False
  with assms(1) have x: "0 < y" by simp
  have "y < (of_int (401 * 2 ^ 44 - 1) + 1 / 2) * 2 powi (8 - 52)" using assms(2) by simp
  then have "binary64 y \<le> of_int (401 * 2 ^ 44 - 1) * 2 powi (8 - 52)"
    by (intro binary64_le[OF x]) simp_all
  then show ?thesis by simp
qed

lemma Between_400_800:
  assumes "0 \<le> r" "r \<le> 1 - 1 / 2 ^ 53"
  shows "400 \<le> Between 400 800 r" "Between 400 800 r \<le> 801"
    and "r \<le> 1 - 1 / 2 ^ 52 \<Longrightarrow> Between 400 800 r \<le> 800"
proof -
  note p = product_bound[OF assms]
  note q = sum_bound[OF p]
  have "of_int 400 \<le> binary64 (binary64 (r * 401) + 400)" using q(1) by simp
  then show "400 \<le> Between 400 800 r" unfolding Between_def by (simp add: le_floor_iff)
  have "binary64 (binary64 (r * 401) + 400) < of_int 801 + 1" using q(2) by simp
  then show "Between 400 800 r \<le> 801" unfolding Between_def by (simp add: floor_le_iff)
  assume "r \<le> 1 - 1 / 2 ^ 52"
  from sum_bound_52[OF p(1) product_bound_52[OF assms(1) this]]
  have "binary64 (binary64 (r * 401) + 400) < of_int 800 + 1" by simp
  then show "Between 400 800 r \<le> 800" unfolding Between_def by (simp add: floor_le_iff)
qed

lemma Between_0_400:
  assumes "0 \<le> r" "r \<le> 1 - 1 / 2 ^ 53"
  shows "0 \<le> Between 0 400 r" "Between 0 400 r \<le> 400"
proof -
  note p = product_bound[OF assms]
  have "0 \<le> binary64 (binary64 (r * 401))" using p(1) by (rule binary64_nonneg)
  then show "0 \<le> Between 0 400 r" unfolding Between_def by simp
  have "binary64 (binary64 (r * 401)) \<le> 401 - 1 / 2 ^ 44" using p by (rule binary64_keeps_bound)
  then have "binary64 (binary64 (r * 401)) < of_int 400 + 1" by simp
  then show "Between 0 400 r \<le> 400" unfolding Between_def by (simp add: floor_le_iff)
qed

lemma Between_largest_random: "Between 400 800 largest_random = 801"
proof -
  have a: "binary64 ((1 - 1 / 2 ^ 53) * 401) = 401 - 1 / 2 ^ 44"
    using binary64_at[of 8 "(1 - 1 / 2 ^ 53) * 401"] by (simp add: round_even_def)
  have b: "binary64 (401 - 1 / 2 ^ 44 + 400) = 801"
    using binary64_at[of 9 "401 - 1 / 2 ^ 44 + 400"] by (simp add: round_even_def)
  have e: "real_of_int (800 - 400 + 1) = 401" "real_of_int 400 = 400" by simp_all
  show ?thesis unfolding Between_def largest_random_def e a b by simp
qed

lemma hundredth: "binary64 (1 / 100) = 5764607523034235 / 2 ^ 59"
  using binary64_at[of "-7" "1/100"] by (simp add: round_even_def)

lemma hundredth_bounds: "2 powi (- 7) < binary64 (1 / 100)" "binary64 (1 / 100) < 2 powi (- 6)"
  by (simp_all add: hundredth)

lemma time_onPreRender: "time (onPreRender p) = binary64 (time p + binary64 (1 / 100))"
  by (simp add: onPreRender_def)

lemma uploads_onPreRender: "uploads (onPreRender p) = uploads p @ [time p]"
  by (simp add: onPreRender_def)

lemma frames_Suc: "frames (Suc n) = onPreRender (frames n)"
  by (simp add: frames_def)

lemma add_bounded:
  assumes "0 \<le> t" "t \<le> 2 ^ 47"
  shows "binary64 (t + binary64 (1 / 100)) \<le> 2 ^ 47"
proof -
  let ?x = "t + binary64 (1 / 100)"
  have x: "0 < ?x" using assms(1) by (simp add: hundredth)
  have "?x < 2 ^ 47 + 2 powi (- 6)" using assms(2) hundredth_bounds(2) by linarith
  also have "\<dots> = (of_int (2 ^ 52) + 1 / 2) * 2 powi (47 - 52)" by simp
  finally have "binary64 ?x \<le> of_int (2 ^ 52) * 2 powi (47 - 52)"
    by (intro binary64_le[OF x]) simp_all
  then show ?thesis by simp
qed

lemma add_at_least:
  assumes "0 \<le> t"
  shows "2 powi (- 7) \<le> binary64 (t + binary64 (1 / 100))"
proof -
  let ?x = "t + binary64 (1 / 100)"
  have x: "0 < ?x" using assms(1) by (simp add: hundredth)
  have lo: "2 powi (- 7) \<le> ?x" using assms hundredth_bounds(1) by linarith
  have "(of_int (2 ^ 52) - 1 / 2) * 2 powi (- 7 - 52) < (2::real) powi (- 7)" by simp
  with lo have "(of_int (2 ^ 52) - 1 / 2) * 2 powi (- 7 - 52) < ?x" by linarith
  then have "of_int (2 ^ 52) * 2 powi (- 7 - 52) \<le> binary64 ?x"
    using lo by (intro binary64_ge[OF x]) simp_all
  then show ?thesis by simp
qed


lemma add_representable:
  assumes "0 \<le> t"
  shows "representable (binary64 (t + binary64 (1 / 100)))"
proof -
  have "0 < t + binary64 (1 / 100)" using assms by (simp add: hundredth)
  from binary64_repr[OF this] show ?thesis unfolding representable_def by blast
qed

lemma add_not_less:
  assumes "representable t" "0 \<le> t"
  shows "t \<le> binary64 (t + binary64 (1 / 100))"
proof (cases "t = 0")
  case True
  have "0 < (2::real) powi (- 7)" by simp
  with add_at_least[OF assms(2)] True show ?thesis by simp
next
  case False
  with assms(1) obtain k n where n: "2 ^ 52 \<le> n" "n < 2 ^ 53"
    and t: "t = of_int n * 2 powi (k - 52)"
    unfolding representable_def by blast
  let ?x = "t + binary64 (1 / 100)"
  let ?v = "(2::real) powi (k - 52)"
  have v: "0 < ?v" by simp
  have c: "0 < binary64 (1 / 100)" by (simp add: hundredth)
  have x: "0 < ?x" using assms(2) c by simp
  have "(of_int (2 ^ 52) :: real) \<le> of_int n" using n(1) by (simp only: of_int_le_iff)
  then have "2 ^ 52 * ?v \<le> of_int n * ?v" using v by simp
  then have pk: "2 powi k \<le> t" using pw_split(1)[of k] t by simp
  have "(of_int n - 1 / 2) * ?v < of_int n * ?v" using v by simp
  then have h: "(of_int n - 1 / 2) * ?v < ?x" using t c by linarith
  have "of_int n * ?v \<le> binary64 ?x"
    using n(2) h pk c by (intro binary64_ge[OF x]) simp_all
  then show ?thesis using t by simp
qed

lemma add_greater:
  assumes "representable t" "0 \<le> t" "t < 2 ^ 47"
  shows "t < binary64 (t + binary64 (1 / 100))"
proof (cases "t = 0")
  case True
  have "0 < (2::real) powi (- 7)" by simp
  with add_at_least[OF assms(2)] True show ?thesis by simp
next
  case False
  with assms(1) obtain k n where n: "2 ^ 52 \<le> n" "n < 2 ^ 53"
    and t: "t = of_int n * 2 powi (k - 52)"
    unfolding representable_def by blast
  let ?x = "t + binary64 (1 / 100)"
  let ?v = "(2::real) powi (k - 52)"
  have v: "0 < ?v" by simp
  have c: "0 < binary64 (1 / 100)" by (simp add: hundredth)
  have x: "0 < ?x" using assms(2) c by simp
  have "(of_int (2 ^ 52) :: real) \<le> of_int n" using n(1) by (simp only: of_int_le_iff)
  then have "2 ^ 52 * ?v \<le> of_int n * ?v" using v by simp
  then have pk: "2 powi k \<le> t" using pw_split(1)[of k] t by simp
  with assms(3) have "(2::real) powi k < 2 powi 47" by simp
  then have "k < 47" by (rule pw_less_exp)
  then have "k - 52 \<le> - 6" by simp
  then have "?v \<le> 2 powi (- 6)" by (rule pw_mono)
  also have "\<dots> = 2 * 2 powi (- 7)" by simp
  finally have "?v / 2 < binary64 (1 / 100)" using hundredth_bounds(1) by linarith
  then have h: "(of_int (n + 1) - 1 / 2) * ?v < ?x" using t by (simp add: algebra_simps)
  have "of_int (n + 1) * ?v \<le> binary64 ?x"
    using n(2) h pk c by (intro binary64_ge[OF x]) simp_all
  moreover have "t < of_int (n + 1) * ?v" using t v by (simp add: algebra_simps)
  ultimately show ?thesis by linarith
qed

lemma add_absorbed: "binary64 (2 ^ 47 + binary64 (1 / 100)) = 2 ^ 47"
  using binary64_at[of "47" "2 ^ 47 + 5764607523034235 / 2 ^ 59"]
  by (simp add: hundredth round_even_def)

lemma frames_invariant:
  "0 \<le> time (frames n) \<and> time (frames n) \<le> 2 ^ 47 \<and> representable (time (frames n))"
proof (induction n)
  case 0
  show ?case by (simp add: frames_def WaveShaderPipeline_def representable_def)
next
  case (Suc n)
  let ?t = "time (frames n)"
  from Suc have t: "0 \<le> ?t" "?t \<le> 2 ^ 47" by simp_all
  have "0 < (2::real) powi (- 7)" by simp
  with add_at_least[OF t(1)] have "0 \<le> binary64 (?t + binary64 (1 / 100))" by linarith
  with add_bounded[OF t] add_representable[OF t(1)] show ?case
    by (simp add: frames_Suc time_onPreRender)
qed

lemma frames_uploads: "uploads (frames n) = map (\<lambda>k. time (frames k)) [0..<n]"
proof (induction n)
  case 0
  show ?case by (simp add: frames_def WaveShaderPipeline_def)
next
  case (Suc n)
  then show ?case by (simp add: frames_Suc uploads_onPreRender)
qed

lemma on_grid:
  assumes "representable t" "2 powi (- 7) \<le> t"
  shows "\<exists>j::int. t = of_int j * 2 powi (- 59)"
proof -
  have "0 < (2::real) powi (- 7)" by simp
  with assms(2) have "t \<noteq> 0" by linarith
  with assms(1) obtain k n where n: "2 ^ 52 \<le> n" "n < 2 ^ 53"
    and t: "t = of_int n * 2 powi (k - 52)"
    unfolding representable_def by blast
  let ?v = "(2::real) powi (k - 52)"
  have v: "0 < ?v" by simp
  have "(of_int n :: real) < of_int (2 ^ 53)" using n(2) by (simp only: of_int_less_iff)
  then have "of_int n * ?v < 2 ^ 53 * ?v" using v by simp
  then have "t < 2 powi (k + 1)" using pw_split(2)[of k] t by simp
  with assms(2) have "(2::real) powi (- 7) < 2 powi (k + 1)" by linarith
  then have "- 7 < k + 1" by (rule pw_less_exp)
  then have k: "0 \<le> k + 7" by simp
  have "(2::real) powi ((k + 7) + (- 59)) = 2 powi (k + 7) * 2 powi (- 59)"
    by (rule power_int_add) simp
  moreover have "(k + 7) + (- 59) = k - 52" by simp
  moreover have "(2::real) powi (k + 7) = 2 ^ nat (k + 7)" using k by (rule power_int_nonneg_exp)
  ultimately have "?v = of_int (2 ^ nat (k + 7)) * 2 powi (- 59)" by simp
  then have "t = of_int (n * 2 ^ nat (k + 7)) * 2 powi (- 59)" using t by simp
  then show ?thesis by blast
qed

lemma frames_on_grid: "\<exists>j::int. time (frames n) = of_int j * 2 powi (- 59)"
proof (cases n)
  case 0
  have "time (frames 0) = of_int 0 * 2 powi (- 59)"
    by (simp add: frames_def WaveShaderPipeline_def)
  with 0 show ?thesis by blast
next
  case (Suc m)
  have t: "0 \<le> time (frames m)" using frames_invariant[of m] by simp
  have "representable (time (frames n))" using frames_invariant[of n] by simp
  moreover have "2 powi (- 7) \<le> time (frames n)"
    using add_at_least[OF t] Suc by (simp add: frames_Suc time_onPreRender)
  ultimately show ?thesis by (rule on_grid)
qed

lemma strictly_increasing_grows:
  assumes "\<forall>n. time (frames n) < time (frames (Suc n))"
  shows "of_nat n * 2 powi (- 59) \<le> time (frames n)"
proof (induction n)
  case 0
  show ?case by (simp add: frames_def WaveShaderPipeline_def)
next
  case (Suc n)
  obtain j where j: "time (frames n) = of_int j * 2 powi (- 59)"
    using frames_on_grid[of n] by blast
  obtain j' where j': "time (frames (Suc n)) = of_int j' * 2 powi (- 59)"
    using frames_on_grid[of "Suc n"] by blast
  have g: "0 < (2::real) powi (- 59)" by simp
  from assms have "time (frames n) < time (frames (Suc n))" by blast
  with j j' g have "(of_int j :: real) < of_int j'" by simp
  then have "j < j'" by (simp only: of_int_less_iff)
  then have "j + 1 \<le> j'" by simp
  then have "(of_int (j + 1) :: real) \<le> of_int j'" by (simp only: of_int_le_iff)
  then have "of_int (j + 1) * 2 powi (- 59) \<le> of_int j' * (2::real) powi (- 59)"
    using g by simp
  then have "time (frames n) + 2 powi (- 59) \<le> time (frames (Suc n))"
    using j j' by (simp add: algebra_simps)
  with Suc show ?case by (simp add: algebra_simps)
qed

subsection \<open>What the engine methods and the callbacks leave alone\<close>

lemma set_children_scalars [simp]:
  "score (set_children g cs s) = score s"
  "scoreText (set_children g cs s) = scoreText s"
  "gameOver (set_children g cs s) = gameOver s"
  "gameOverText_visible (set_children g cs s) = gameOverText_visible s"
  "shaderEnabled (set_children g cs s) = shaderEnabled s"
  "physics_paused (set_children g cs s) = physics_paused s"
  "restart_queued (set_children g cs s) = restart_queued s"
  "calls (set_children g cs s) = calls s"
  "sky (set_children g cs s) = sky s"
  "player (set_children g cs s) = player s"
  by (cases g; simp)+

lemma on_obj_scalars [simp]:
  "score (on_obj ob f s) = score s"
  "scoreText (on_obj ob f s) = scoreText s"
  "gameOver (on_obj ob f s) = gameOver s"
  "gameOverText_visible (on_obj ob f s) = gameOverText_visible s"
  "shaderEnabled (on_obj ob f s) = shaderEnabled s"
  "physics_paused (on_obj ob f s) = physics_paused s"
  "restart_queued (on_obj ob f s) = restart_queued s"
  "calls (on_obj ob f s) = calls s"
  by (cases ob; simp)+

lemma invoke_scalars [simp]:
  "score (invoke ob m s) = score s"
  "scoreText (invoke ob m s) = scoreText s"
  "gameOver (invoke ob m s) = gameOver s"
  "gameOverText_visible (invoke ob m s) = gameOverText_visible s"
  "shaderEnabled (invoke ob m s) = shaderEnabled s"
  "physics_paused (invoke ob m s) = physics_paused s"
  "restart_queued (invoke ob m s) = restart_queued s"
  "calls (invoke ob m s) = calls s @ [Call ob m]"
  by (simp_all add: invoke_def emit_def)

lemma each_child_scalars [simp]:
  "score (each_child g body s) = score s"
  "scoreText (each_child g body s) = scoreText s"
  "gameOver (each_child g body s) = gameOver s"
  "gameOverText_visible (each_child g body s) = gameOverText_visible s"
  "shaderEnabled (each_child g body s) = shaderEnabled s"
  "physics_paused (each_child g body s) = physics_paused s"
  "restart_queued (each_child g body s) = restart_queued s"
  "sky (each_child g body s) = sky s"
  "player (each_child g body s) = player s"
  by (simp_all add: each_child_def emit_def Let_def)

lemma each_child_calls:
  "calls (each_child g body s) =
     calls s @ concat (map (\<lambda>i. map (Call (Child g i)) (body (children g s ! i)))
                         [0..<length (children g s)])"
  by (simp add: each_child_def emit_def Let_def)

lemma setText_scalars [simp]:
  "score (setText t s) = score s"
  "scoreText (setText t s) = t"
  "gameOver (setText t s) = gameOver s"
  "gameOverText_visible (setText t s) = gameOverText_visible s"
  "shaderEnabled (setText t s) = shaderEnabled s"
  "physics_paused (setText t s) = physics_paused s"
  "restart_queued (setText t s) = restart_queued s"
  "calls (setText t s) = calls s @ [SetText t]"
  "sky (setText t s) = sky s"
  "platforms (setText t s) = platforms s"
  "player (setText t s) = player s"
  "stars (setText t s) = stars s"
  "bombs (setText t s) = bombs s"
  by (simp_all add: setText_def emit_def)

lemma bombs_create_scalars [simp]:
  "score (bombs_create px py k s) = score s"
  "scoreText (bombs_create px py k s) = scoreText s"
  "gameOver (bombs_create px py k s) = gameOver s"
  "gameOverText_visible (bombs_create px py k s) = gameOverText_visible s"
  "shaderEnabled (bombs_create px py k s) = shaderEnabled s"
  "physics_paused (bombs_create px py k s) = physics_paused s"
  "restart_queued (bombs_create px py k s) = restart_queued s"
  "calls (bombs_create px py k s) = calls s @ [BombsCreate px py k]"
  "sky (bombs_create px py k s) = sky s"
  "platforms (bombs_create px py k s) = platforms s"
  "player (bombs_create px py k s) = player s"
  "stars (bombs_create px py k s) = stars s"
  "bombs (bombs_create px py k s) = bombs s @ [new_sprite px py]"
  by (simp_all add: bombs_create_def emit_def)

lemma collectStar_score: "score (collectStar s i r1 r2) = score s + 10"
  by (simp add: collectStar_def Let_def)


lemma collectStar_flags:
  "gameOver (collectStar s i r1 r2) = gameOver s"
  "gameOverText_visible (collectStar s i r1 r2) = gameOverText_visible s"
  "shaderEnabled (collectStar s i r1 r2) = shaderEnabled s"
  "physics_paused (collectStar s i r1 r2) = physics_paused s"
  "restart_queued (collectStar s i r1 r2) = restart_queued s"
  by (simp_all add: collectStar_def Let_def)

lemma update_flags:
  "score (update c s) = score s"
  "scoreText (update c s) = scoreText s"
  "gameOver (update c s) = gameOver s"
  "gameOverText_visible (update c s) = gameOverText_visible s"
  "shaderEnabled (update c s) = shaderEnabled s"
  "physics_paused (update c s) = physics_paused s"
  "restart_queued (update c s) = restart_queued s"
  by (simp_all add: update_def Let_def)

lemma keydown_S_flags:
  "score (keydown_S s) = score s"
  "scoreText (keydown_S s) = scoreText s"
  "gameOver (keydown_S s) = gameOver s"
  "gameOverText_visible (keydown_S s) = gameOverText_visible s"
  "shaderEnabled (keydown_S s) = (\<not> shaderEnabled s)"
  "physics_paused (keydown_S s) = physics_paused s"
  "restart_queued (keydown_S s) = restart_queued s"
  by (simp_all add: keydown_S_def Let_def)

lemma pointerdown_flags:
  "score (pointerdown s) = score s"
  "scoreText (pointerdown s) = scoreText s"
  "gameOver (pointerdown s) = gameOver s"
  "gameOverText_visible (pointerdown s) = gameOverText_visible s"
  "shaderEnabled (pointerdown s) = shaderEnabled s"
  "physics_paused (pointerdown s) = physics_paused s"
  by (simp_all add: pointerdown_def scene_restart_def emit_def)

lemma hitBomb_flags:
  "score (hitBomb s j) = score s"
  "scoreText (hitBomb s j) = scoreText s"
  "gameOver (hitBomb s j)"
  "gameOverText_visible (hitBomb s j)"
  "shaderEnabled (hitBomb s j) = shaderEnabled s"
  "physics_paused (hitBomb s j)"
  "restart_queued (hitBomb s j) = restart_queued s"
  by (simp_all add: hitBomb_def emit_def Let_def)

lemma world_step_flags:
  "score (world_step mp mss mbs s) = score s"
  "scoreText (world_step mp mss mbs s) = scoreText s"
  "gameOver (world_step mp mss mbs s) = gameOver s"
  "gameOverText_visible (world_step mp mss mbs s) = gameOverText_visible s"
  "shaderEnabled (world_step mp mss mbs s) = shaderEnabled s"
  "physics_paused (world_step mp mss mbs s) = physics_paused s"
  "restart_queued (world_step mp mss mbs s) = restart_queued s"
  by (simp_all add: world_step_def)

lemma create_flags:
  "score create = 0"
  "scoreText create = ''Score: 0''"
  "\<not> gameOver create"
  "\<not> gameOverText_visible create"
  "shaderEnabled create"
  "\<not> physics_paused create"
  "\<not> restart_queued create"
  by (simp_all add: create_def)

lemma new_calls_append: "calls s' = calls s @ cs \<Longrightarrow> new_calls s s' = cs"
  by (simp add: new_calls_def)

lemma countActive_zero: "countActive True cs = 0 \<longleftrightarrow> (\<forall>j<length cs. \<not> active (cs ! j))"
  by (simp add: countActive_def filter_empty_conv all_set_conv_all_nth)

lemma stars_invoke_star [simp]:
  "stars (invoke (Child Stars i) m s) = (stars s)[i := effect m (stars s ! i)]"
  "bombs (invoke (Child Stars i) m s) = bombs s"
  "player (invoke (Child Stars i) m s) = player s"
  "sky (invoke (Child Stars i) m s) = sky s"
  "platforms (invoke (Child Stars i) m s) = platforms s"
  by (simp_all add: invoke_def emit_def)

lemma invoke_bomb [simp]:
  "bombs (invoke (Child Bombs i) m s) = (bombs s)[i := effect m (bombs s ! i)]"
  "stars (invoke (Child Bombs i) m s) = stars s"
  "player (invoke (Child Bombs i) m s) = player s"
  "sky (invoke (Child Bombs i) m s) = sky s"
  "platforms (invoke (Child Bombs i) m s) = platforms s"
  by (simp_all add: invoke_def emit_def)

lemma invoke_player [simp]:
  "player (invoke Player m s) = effect m (player s)"
  "stars (invoke Player m s) = stars s"
  "bombs (invoke Player m s) = bombs s"
  "sky (invoke Player m s) = sky s"
  "platforms (invoke Player m s) = platforms s"
  by (simp_all add: invoke_def emit_def)

lemma invoke_sky [simp]:
  "sky (invoke Sky m s) = effect m (sky s)"
  "stars (invoke Sky m s) = stars s"
  "bombs (invoke Sky m s) = bombs s"
  "player (invoke Sky m s) = player s"
  "platforms (invoke Sky m s) = platforms s"
  by (simp_all add: invoke_def emit_def)

lemma each_child_groups [simp]:
  "stars (each_child Stars body s) = map (\<lambda>child. effects (body child) child) (stars s)"
  "bombs (each_child Stars body s) = bombs s"
  "platforms (each_child Stars body s) = platforms s"
  "bombs (each_child Bombs body s) = map (\<lambda>child. effects (body child) child) (bombs s)"
  "stars (each_child Bombs body s) = stars s"
  "platforms (each_child Bombs body s) = platforms s"
  "platforms (each_child Platforms body s) = map (\<lambda>child. effects (body child) child) (platforms s)"
  "stars (each_child Platforms body s) = stars s"
  "bombs (each_child Platforms body s) = bombs s"
  by (simp_all add: each_child_def emit_def Let_def)

lemma countActive_after_disable:
  "i < length (stars s) \<Longrightarrow> \<not> active d \<Longrightarrow>
     countActive True ((stars s)[i := d]) = 0 \<longleftrightarrow> last_active s i"
  by (auto simp: countActive_zero last_active_def nth_list_update)


lemma collectStar_stay:
  "i < length (stars s) \<Longrightarrow> \<not> last_active s i \<Longrightarrow>
     stars (collectStar s i r1 r2) = (stars s)[i := effect (DisableBody True True) (stars s ! i)] \<and>
     bombs (collectStar s i r1 r2) = bombs s \<and>
     calls (collectStar s i r1 r2) =
       calls s @ [Call (Child Stars i) (DisableBody True True),
                  SetText (''Score: '' @ number_toString (score s + 10))]"
  by (simp add: collectStar_def Let_def countActive_after_disable)

lemma respawn_state:
  assumes "i < length (stars s)" "last_active s i"
  shows "stars (collectStar s i r1 r2) =
           map (\<lambda>child. effects (EnableBody True (obj_x child) 0 True True #
                                  (if shaderEnabled s then [SetPipeline ''Wave''] else [])) child)
             ((stars s)[i := effect (DisableBody True True) (stars s ! i)])"
    and "bombs (collectStar s i r1 r2) =
           bombs s @ [effects (SetBounce 1 # SetCollideWorldBounds True #
                         SetVelocity (of_int (Between (- 200) 200 r2)) 20 #
                         (if shaderEnabled s then [SetPipeline ''Wave''] else []))
                        (new_sprite (of_int (if obj_x (player s) < 400 then Between 400 800 r1
                                             else Between 0 400 r1)) 16)]"
  using assms
  by (simp_all add: collectStar_def Let_def countActive_after_disable)

subsection \<open>Invariants of the events\<close>

lemma fire_score:
  "fire e s = Some s' \<Longrightarrow> e \<noteq> Restart \<Longrightarrow> score s \<le> score s'"
  by (cases e)
     (auto simp: update_flags collectStar_score hitBomb_flags pointerdown_flags
         keydown_S_flags world_step_flags split: if_splits)

lemma reachable_score_nonneg: "reachable s \<Longrightarrow> 0 \<le> score s"
proof (induction rule: reachable.induct)
  case created
  show ?case by (simp add: create_flags)
next
  case (fired s e s')
  show ?case
  proof (cases "e = Restart")
    case True
    with fired.hyps(2) show ?thesis by (simp add: create_flags split: if_splits)
  next
    case False
    with fired.hyps(2) have "score s \<le> score s'" by (rule fire_score[rotated -1, rotated])
    with fired.IH show ?thesis by simp
  qed
qed

lemma fire_gameOver_flags:
  "fire e s = Some s' \<Longrightarrow> e \<noteq> Restart \<Longrightarrow> \<forall>j. e \<noteq> BombCollision j \<Longrightarrow>
     gameOver s' = gameOver s \<and> gameOverText_visible s' = gameOverText_visible s"
  by (cases e)
     (auto simp: update_flags collectStar_flags pointerdown_flags
         keydown_S_flags world_step_flags split: if_splits)

lemma reachable_gameOverText: "reachable s \<Longrightarrow> gameOverText_visible s = gameOver s"
proof (induction rule: reachable.induct)
  case created
  show ?case by (simp add: create_flags)
next
  case (fired s e s')
  then show ?case
    by (cases e)
       (auto simp: update_flags collectStar_flags pointerdown_flags hitBomb_flags
          keydown_S_flags world_step_flags create_flags split: if_splits)
qed



lemma map_const_replicate: "(\<forall>x\<in>set xs. f x = c) \<Longrightarrow> map f xs = replicate (length xs) c"
  by (induction xs) simp_all

lemma keydown_S_pipelines:
  "pipelines_of (keydown_S s) =
     (let p = Some (if shaderEnabled s then MultiPipeline else WavePipeline)
      in (p, replicate (length (platforms s)) p, replicate (length (stars s)) p, p,
          replicate (length (bombs s)) p))"
  by (simp add: keydown_S_def pipelines_of_def Let_def map_const_replicate)

lemma keydown_S_lengths:
  "length (platforms (keydown_S s)) = length (platforms s)"
  "length (stars (keydown_S s)) = length (stars s)"
  "length (bombs (keydown_S s)) = length (bombs s)"
  by (simp_all add: keydown_S_def Let_def)

lemma shader_consistent_pipelines:
  "shader_consistent s \<Longrightarrow>
     pipelines_of s =
       (let p = Some (if shaderEnabled s then WavePipeline else MultiPipeline)
        in (p, replicate (length (platforms s)) p, replicate (length (stars s)) p, p,
            replicate (length (bombs s)) p))"
  by (simp add: shader_consistent_def shader_pipeline_def pipelines_of_def Let_def
      map_const_replicate)

lemma pipeline_moved [simp]: "pipeline (moved m ob) = pipeline ob"
  by (simp add: moved_def)

lemma pipeline_moved_all: "map pipeline (moved_all ms obs) = map pipeline obs"
  by (induction ms obs rule: moved_all.induct) simp_all

lemma set_pipeline_moved_all:
  "(\<forall>ob\<in>set (moved_all ms obs). pipeline ob = p) \<longleftrightarrow> (\<forall>ob\<in>set obs. pipeline ob = p)"
proof -
  have "(\<forall>ob\<in>set (moved_all ms obs). pipeline ob = p) \<longleftrightarrow>
        (\<forall>q\<in>set (map pipeline (moved_all ms obs)). q = p)" by simp
  also have "\<dots> \<longleftrightarrow> (\<forall>q\<in>set (map pipeline obs). q = p)" by (simp only: pipeline_moved_all)
  also have "\<dots> \<longleftrightarrow> (\<forall>ob\<in>set obs. pipeline ob = p)" by simp
  finally show ?thesis .
qed

lemma consistent_create: "shader_consistent create"
  by (simp add: shader_consistent_def shader_pipeline_def create_def new_sprite_def)

lemma consistent_keydown_S: "shader_consistent (keydown_S s)"
  by (simp add: shader_consistent_def shader_pipeline_def keydown_S_def Let_def)

lemma consistent_update: "shader_consistent s \<Longrightarrow> shader_consistent (update c s)"
  by (auto simp: shader_consistent_def shader_pipeline_def update_def Let_def)

lemma consistent_hitBomb: "shader_consistent s \<Longrightarrow> shader_consistent (hitBomb s j)"
  by (simp add: shader_consistent_def shader_pipeline_def hitBomb_def Let_def emit_def)

lemma consistent_pointerdown: "shader_consistent s \<Longrightarrow> shader_consistent (pointerdown s)"
  by (simp add: shader_consistent_def shader_pipeline_def pointerdown_def scene_restart_def
      emit_def)

lemma consistent_world_step:
  "shader_consistent s \<Longrightarrow> shader_consistent (world_step mp mss mbs s)"
  by (simp add: shader_consistent_def shader_pipeline_def world_step_def set_pipeline_moved_all)

lemma consistent_collectStar:
  assumes "shader_consistent s" "i < length (stars s)"
  shows "shader_consistent (collectStar s i r1 r2)"
proof (cases "last_active s i")
  case True
  note st = respawn_state[OF assms(2) True, of r1 r2]
  have "sky (collectStar s i r1 r2) = sky s" "platforms (collectStar s i r1 r2) = platforms s"
       "player (collectStar s i r1 r2) = player s"
    by (simp_all add: collectStar_def Let_def)
  with assms(1) nth_mem[OF assms(2)] show ?thesis
    by (auto simp: shader_consistent_def shader_pipeline_def collectStar_flags st new_sprite_def
        dest!: set_update_subset_insert[THEN subsetD])
next
  case False
  note st = collectStar_stay[OF assms(2) False, of r1 r2]
  have "sky (collectStar s i r1 r2) = sky s" "platforms (collectStar s i r1 r2) = platforms s"
       "player (collectStar s i r1 r2) = player s"
    by (simp_all add: collectStar_def Let_def)
  with assms(1) nth_mem[OF assms(2)] show ?thesis
    by (auto simp: shader_consistent_def shader_pipeline_def collectStar_flags st
        dest!: set_update_subset_insert[THEN subsetD])
qed

lemma reachable_consistent: "reachable s \<Longrightarrow> shader_consistent s"
proof (induction rule: reachable.induct)
  case created
  show ?case by (rule consistent_create)
next
  case (fired s e s')
  then show ?case
    by (cases e)
       (auto simp: consistent_update consistent_collectStar consistent_hitBomb
          consistent_pointerdown consistent_keydown_S consistent_world_step
          consistent_create split: if_splits)
qed

subsection \<open>Runs, and the example game\<close>

lemma run_append:
  "run (es @ es') s = (case run es s of None \<Rightarrow> None | Some s1 \<Rightarrow> run es' s1)"
  by (induction es arbitrary: s) (simp_all split: option.splits)

lemma run_reachable: "reachable s \<Longrightarrow> run es s = Some s' \<Longrightarrow> reachable s'"
proof (induction es arbitrary: s)
  case Nil
  then show ?case by simp
next
  case (Cons e es)
  from Cons.prems(2) obtain s1 where f: "fire e s = Some s1" and r: "run es s1 = Some s'"
    by (auto split: option.splits)
  from Cons.prems(1) f have "reachable s1" by (rule fired)
  then show ?case using r by (rule Cons.IH)
qed

lemma last_active_list:
  "last_active s i \<longleftrightarrow>
     list_all (\<lambda>j. j = i \<or> \<not> active (stars s ! j)) [0..<length (stars s)]"
  by (auto simp: last_active_def list_all_iff)

lemmas eval_defs = collect_stars_def upt_rec create_def new_sprite_def collectStar_def Let_def
  invoke_def emit_def each_child_def setText_def bombs_create_def scene_restart_def
  countActive_def hitBomb_def pointerdown_def last_active_list
  number_toString_def digits.simps keydown_S_def

lemma create_stars: "length (stars create) = 12" "bombs create = []"
  by (simp_all add: create_def)

lemma create_not_last_active: "\<not> last_active create 3"
  by (simp add: eval_defs)

lemma run_collect_11:
  "\<exists>s. run (collect_stars 11) create = Some s \<and> length (stars s) = 12 \<and> last_active s 11 \<and>
       obj_x (player s) = 100 \<and> bombs s = [] \<and> score s = 110"
  by (simp add: eval_defs)

lemma run_collect_12:
  "\<exists>s. run (collect_stars 12) create = Some s \<and> length (bombs s) = 1 \<and> score s = 120 \<and>
       scoreText s = ''Score: 120'' \<and> \<not> gameOver s \<and> \<not> restart_queued s"
  by (simp add: eval_defs)


section \<open>The claims\<close>






text \<open>
  C3. In every reachable state the score is a non-negative integer; no event other
  than the restart makes it smaller; the restart runs \<open>create\<close>, which sets it to 0.
\<close>

theorem score_monotone_until_restart:
  assumes "reachable s"
  shows "0 \<le> score s \<and>
         (\<forall>e s'. fire e s = Some s' \<and> e \<noteq> Restart \<longrightarrow> score s \<le> score s') \<and>
         (\<forall>s'. fire Restart s = Some s' \<longrightarrow> s' = create) \<and> score create = 0"
proof -
  have "0 \<le> score s" using assms by (rule reachable_score_nonneg)
  moreover have "\<forall>e s'. fire e s = Some s' \<and> e \<noteq> Restart \<longrightarrow> score s \<le> score s'"
    using fire_score by blast
  moreover have "\<forall>s'. fire Restart s = Some s' \<longrightarrow> s' = create"
    by (simp split: if_splits)
  moreover have "score create = 0" by (simp add: create_flags)
  ultimately show ?thesis by blast
qed

theorem score_monotone_until_restart_witness:
  "\<exists>s. run (collect_stars 12 @ [BombCollision 0, PointerDown]) create = Some s \<and>
      reachable s \<and> 0 \<le> score s \<and>
      fire KeyDownS s = Some (keydown_S s) \<and> KeyDownS \<noteq> Restart \<and> score s \<le> score (keydown_S s) \<and>
      fire Restart s = Some create \<and> score create = 0"
proof -
  obtain s0 where s0: "run (collect_stars 12) create = Some s0" "length (bombs s0) = 1"
    using run_collect_12 by blast
  let ?s = "pointerdown (hitBomb s0 0)"
  have r: "run (collect_stars 12 @ [BombCollision 0, PointerDown]) create = Some ?s"
    using s0 by (simp add: run_append)
  have re: "reachable ?s" using created r by (rule run_reachable)
  have q: "fire Restart ?s = Some create"
    by (simp add: pointerdown_def hitBomb_flags scene_restart_def emit_def)
  note th = score_monotone_until_restart[OF re]
  from th have a: "0 \<le> score ?s" "score create = 0" by blast+
  from th have "fire KeyDownS ?s = Some (keydown_S ?s) \<and> KeyDownS \<noteq> Restart \<longrightarrow>
      score ?s \<le> score (keydown_S ?s)" by blast
  then have b: "score ?s \<le> score (keydown_S ?s)" by simp
  from r re q a b show ?thesis by auto
qed

text \<open>
  C4. In every state the scene can be in, pressing S twice gives back the shader flag
  and the pipeline of the sky, of every platform, of every star, of the player and of
  every bomb. (In a reachable state every one of these objects is on the pipeline that
  goes with the flag, \<open>reachable_consistent\<close>; one press moves them all to the other
  pipeline, the second press moves them back.)
\<close>

theorem keydown_S_twice:
  assumes "reachable s"
  shows "shaderEnabled (keydown_S (keydown_S s)) = shaderEnabled s \<and>
         pipelines_of (keydown_S (keydown_S s)) = pipelines_of s"
proof -
  have "shader_consistent s" using assms by (rule reachable_consistent)
  then show ?thesis
    by (simp add: keydown_S_pipelines keydown_S_lengths keydown_S_flags
        shader_consistent_pipelines Let_def)
qed

theorem keydown_S_twice_witness:
  "\<exists>s. run (collect_stars 12 @ [KeyDownS]) create = Some s \<and> reachable s \<and>
      shaderEnabled (keydown_S (keydown_S s)) = shaderEnabled s \<and>
      pipelines_of (keydown_S (keydown_S s)) = pipelines_of s"
proof -
  obtain s0 where s0: "run (collect_stars 12) create = Some s0"
    using run_collect_12 by blast
  have r: "run (collect_stars 12 @ [KeyDownS]) create = Some (keydown_S s0)"
    using s0 by (simp add: run_append)
  have re: "reachable (keydown_S s0)" using created r by (rule run_reachable)
  from keydown_S_twice[OF re] r re show ?thesis by blast
qed

text \<open>
  C5. Each \<open>onPreRender\<close> call hands the current \<open>this.time\<close> to the uniform \<open>uTime\<close> and
  then replaces \<open>this.time\<close> by the double nearest to its sum with \<open>0.01\<close>; it changes
  nothing else. Starting from 0, the value uploaded in frame \<open>n\<close> is the time after \<open>n\<close>
  calls; the uploaded values never decrease and never exceed \<open>2 ^ 47\<close>; each is larger
  than the one before as long as the time is below \<open>2 ^ 47\<close>; at \<open>2 ^ 47\<close> the addition is
  absorbed and the time stays. The stronger statement, that the sequence is strictly
  increasing, fails: the uploaded values are rounded sums, and they cannot increase
  for ever below a bound.
\<close>

theorem onPreRender_frame_time:
  "onPreRender p =
     \<lparr> time = binary64 (time p + binary64 (1 / 100)), uploads = uploads p @ [time p] \<rparr> \<and>
   time WaveShaderPipeline = 0 \<and>
   uploads (frames n) = map (\<lambda>k. time (frames k)) [0..<n] \<and>
   time (frames n) \<le> time (frames (Suc n)) \<and>
   time (frames n) \<le> 2 ^ 47 \<and>
   (time (frames n) < 2 ^ 47 \<longrightarrow> time (frames n) < time (frames (Suc n))) \<and>
   (time p = 2 ^ 47 \<longrightarrow> time (onPreRender p) = 2 ^ 47)"
proof -
  note inv = frames_invariant[of n]
  from inv have t: "0 \<le> time (frames n)" and r: "representable (time (frames n))" by simp_all
  have "time (frames n) \<le> time (frames (Suc n))"
    using add_not_less[OF r t] by (simp add: frames_Suc time_onPreRender)
  moreover have "time (frames n) < 2 ^ 47 \<longrightarrow> time (frames n) < time (frames (Suc n))"
    using add_greater[OF r t] by (simp add: frames_Suc time_onPreRender)
  moreover have "time p = 2 ^ 47 \<longrightarrow> time (onPreRender p) = 2 ^ 47"
    using add_absorbed by (simp add: time_onPreRender)
  moreover have "onPreRender p =
     \<lparr> time = binary64 (time p + binary64 (1 / 100)), uploads = uploads p @ [time p] \<rparr>"
    by (simp add: onPreRender_def)
  ultimately show ?thesis
    using inv frames_uploads[of n] by (simp add: WaveShaderPipeline_def)
qed

theorem onPreRender_frame_time_witness:
  "time (frames 0) = 0 \<and> time (frames 0) < 2 ^ 47 \<and> time (frames 0) < time (frames (Suc 0)) \<and>
   time \<lparr> time = 2 ^ 47, uploads = [] \<rparr> = 2 ^ 47 \<and>
   time (onPreRender \<lparr> time = 2 ^ 47, uploads = [] \<rparr>) = 2 ^ 47"
proof -
  let ?p = "\<lparr> time = 2 ^ 47, uploads = [] \<rparr>"
  note th = onPreRender_frame_time[of ?p 0]
  have z: "time (frames 0) = 0" by (simp add: frames_def WaveShaderPipeline_def)
  from th have "time (frames 0) < 2 ^ 47 \<longrightarrow> time (frames 0) < time (frames (Suc 0))"
    by blast
  with z have a: "time (frames 0) < time (frames (Suc 0))" by simp
  from th have "time ?p = 2 ^ 47 \<longrightarrow> time (onPreRender ?p) = 2 ^ 47" by blast
  then have b: "time (onPreRender ?p) = 2 ^ 47" by simp
  from z a b show ?thesis by simp
qed

theorem onPreRender_frame_time_counterexample:
  "\<not> (\<forall>n. time (frames n) < time (frames (Suc n)))"
proof
  assume a: "\<forall>n. time (frames n) < time (frames (Suc n))"
  have "of_nat (2 ^ 107) * 2 powi (- 59) \<le> time (frames (2 ^ 107))"
    using a by (rule strictly_increasing_grows)
  moreover have "time (frames (2 ^ 107)) \<le> 2 ^ 47" using frames_invariant by blast
  moreover have "(2::real) ^ 47 < of_nat (2 ^ 107) * 2 powi (- 59)" by simp
  ultimately show False by linarith
qed

text \<open>
  C6. A click asks for a restart exactly when the game is over: the handler then
  calls \<open>scene.restart()\<close>, after which the scene manager can carry the restart out;
  when the game is not over the click makes no engine call and leaves the scene as it
  is.
\<close>

theorem pointerdown_restart:
  "(gameOver s \<longrightarrow> restart_queued (pointerdown s) \<and>
      fire Restart (pointerdown s) = Some create) \<and>
   (\<not> gameOver s \<longrightarrow> pointerdown s = s) \<and>
   new_calls s (pointerdown s) = (if gameOver s then [SceneRestart] else [])"
  by (simp add: pointerdown_def scene_restart_def emit_def new_calls_def)

theorem pointerdown_restart_witness:
  "\<not> gameOver create \<and> pointerdown create = create \<and>
   gameOver (hitBomb create 0) \<and> restart_queued (pointerdown (hitBomb create 0)) \<and>
   fire Restart (pointerdown (hitBomb create 0)) = Some create \<and>
   new_calls (hitBomb create 0) (pointerdown (hitBomb create 0)) = [SceneRestart]"
  using pointerdown_restart[of create] pointerdown_restart[of "hitBomb create 0"]
  by (simp add: create_flags hitBomb_flags)

text \<open>
  C7. The tutorial scene: \<open>preload\<close> sets the base URL and asks for exactly one image,
  \<open>sky\<close>, by a URL relative to that base; \<open>create\<close> adds exactly one image, \<open>sky\<close> at
  \<open>(400, 300)\<close>; \<open>update\<close> does nothing.
\<close>

theorem tutorial_scene:
  "baseURL (tutorial_preload t) = ''https://labs.phaser.io'' \<and>
   load_images (tutorial_preload t) = load_images t @ [(''sky'', ''assets/skies/space3.png'')] \<and>
   display_list (tutorial_preload t) = display_list t \<and>
   display_list (tutorial_create t) = display_list t @ [(400, 300, ''sky'')] \<and>
   load_images (tutorial_create t) = load_images t \<and> baseURL (tutorial_create t) = baseURL t \<and>
   tutorial_update t = t"
  by (simp add: tutorial_preload_def tutorial_create_def tutorial_update_def Let_def)

text \<open>
  C8. When \<open>collectStar\<close> disables the last active star, every star of the group is
  enabled again (active, visible, body enabled) at its own \<open>x\<close> and at \<open>y = 0\<close>, and
  exactly one bomb is added. Its \<open>x\<close> is the integer \<open>Phaser.Math.Between\<close> computes in
  doubles from a value of \<open>Math.random()\<close>: when the player's \<open>x\<close> is below 400 it is at
  least 400 and at most 801, and at most 800 when the random value is at most
  \<open>1 - 2 ^ - 52\<close>; otherwise it is in \<open>[0, 400]\<close>. When another star is still active, the
  stars are as before except for the disabled one, no bomb is added, and the callback
  makes no engine call beyond \<open>disableBody\<close> and \<open>setText\<close>. The stronger statement,
  that \<open>x\<close> is at most 800, fails at the largest random value, \<open>1 - 2 ^ - 53\<close>, where the
  sum is rounded up to 801.
\<close>

theorem collectStar_respawn:
  assumes "i < length (stars s)" "0 \<le> r1" "r1 \<le> 1 - 1 / 2 ^ 53"
  shows "(last_active s i \<longrightarrow>
            length (stars (collectStar s i r1 r2)) = length (stars s) \<and>
            (\<forall>j<length (stars s).
               enable (stars (collectStar s i r1 r2) ! j) \<and>
               active (stars (collectStar s i r1 r2) ! j) \<and>
               visible (stars (collectStar s i r1 r2) ! j) \<and>
               obj_x (stars (collectStar s i r1 r2) ! j) = obj_x (stars s ! j) \<and>
               obj_y (stars (collectStar s i r1 r2) ! j) = 0) \<and>
            length (bombs (collectStar s i r1 r2)) = length (bombs s) + 1 \<and>
            butlast (bombs (collectStar s i r1 r2)) = bombs s \<and>
            (if obj_x (player s) < 400
             then 400 \<le> obj_x (last (bombs (collectStar s i r1 r2))) \<and>
                  obj_x (last (bombs (collectStar s i r1 r2))) \<le> 801 \<and>
                  (r1 \<le> 1 - 1 / 2 ^ 52 \<longrightarrow>
                     obj_x (last (bombs (collectStar s i r1 r2))) \<le> 800)
             else 0 \<le> obj_x (last (bombs (collectStar s i r1 r2))) \<and>
                  obj_x (last (bombs (collectStar s i r1 r2))) \<le> 400)) \<and>
         (\<not> last_active s i \<longrightarrow>
            stars (collectStar s i r1 r2) =
              (stars s)[i := effect (DisableBody True True) (stars s ! i)] \<and>
            bombs (collectStar s i r1 r2) = bombs s \<and>
            new_calls s (collectStar s i r1 r2) =
              [Call (Child Stars i) (DisableBody True True),
               SetText (''Score: '' @ number_toString (score s + 10))])"
proof (intro conjI impI)
  assume la: "last_active s i"
  note st = respawn_state[OF assms(1) la, of r1 r2]
  show "length (stars (collectStar s i r1 r2)) = length (stars s)"
    by (simp add: st)
  show "\<forall>j<length (stars s).
               enable (stars (collectStar s i r1 r2) ! j) \<and>
               active (stars (collectStar s i r1 r2) ! j) \<and>
               visible (stars (collectStar s i r1 r2) ! j) \<and>
               obj_x (stars (collectStar s i r1 r2) ! j) = obj_x (stars s ! j) \<and>
               obj_y (stars (collectStar s i r1 r2) ! j) = 0"
    using assms(1) by (auto simp: st nth_list_update)
  show "length (bombs (collectStar s i r1 r2)) = length (bombs s) + 1"
    by (simp add: st)
  show "butlast (bombs (collectStar s i r1 r2)) = bombs s"
    by (simp add: st)
  have b1: "400 \<le> Between 400 800 r1 \<and> Between 400 800 r1 \<le> 801 \<and>
      (r1 \<le> 1 - 1 / 2 ^ 52 \<longrightarrow> Between 400 800 r1 \<le> 800)"
    using Between_400_800[OF assms(2,3)] by blast
  have b2: "0 \<le> Between 0 400 r1 \<and> Between 0 400 r1 \<le> 400"
    using Between_0_400[OF assms(2,3)] by blast
  show "if obj_x (player s) < 400
        then 400 \<le> obj_x (last (bombs (collectStar s i r1 r2))) \<and>
             obj_x (last (bombs (collectStar s i r1 r2))) \<le> 801 \<and>
             (r1 \<le> 1 - 1 / 2 ^ 52 \<longrightarrow>
                obj_x (last (bombs (collectStar s i r1 r2))) \<le> 800)
        else 0 \<le> obj_x (last (bombs (collectStar s i r1 r2))) \<and>
             obj_x (last (bombs (collectStar s i r1 r2))) \<le> 400"
    using b1 b2 by (simp add: st new_sprite_def)
next
  assume nla: "\<not> last_active s i"
  note st = collectStar_stay[OF assms(1) nla, of r1 r2]
  show "stars (collectStar s i r1 r2) =
              (stars s)[i := effect (DisableBody True True) (stars s ! i)]"
    using st by simp
  show "bombs (collectStar s i r1 r2) = bombs s" using st by simp
  show "new_calls s (collectStar s i r1 r2) =
              [Call (Child Stars i) (DisableBody True True),
               SetText (''Score: '' @ number_toString (score s + 10))]"
    using st by (simp add: new_calls_def)
qed

theorem collectStar_respawn_witness:
  "\<exists>s. run (collect_stars 11) create = Some s \<and>
      11 < length (stars s) \<and> (0::real) \<le> 1 / 2 \<and> (1::real) / 2 \<le> 1 - 1 / 2 ^ 53 \<and>
      (1::real) / 2 \<le> 1 - 1 / 2 ^ 52 \<and> last_active s 11 \<and>
      obj_x (player s) < 400 \<and>
      (\<forall>j<length (stars s). enable (stars (collectStar s 11 (1 / 2) 0) ! j) \<and>
         obj_y (stars (collectStar s 11 (1 / 2) 0) ! j) = 0) \<and>
      length (bombs (collectStar s 11 (1 / 2) 0)) = 1 \<and>
      400 \<le> obj_x (last (bombs (collectStar s 11 (1 / 2) 0))) \<and>
      obj_x (last (bombs (collectStar s 11 (1 / 2) 0))) \<le> 800 \<and>
      3 < length (stars create) \<and> \<not> last_active create 3 \<and>
      bombs (collectStar create 3 (1 / 2) 0) = []"
proof -
  obtain s where s: "run (collect_stars 11) create = Some s" "length (stars s) = 12"
      "last_active s 11" "obj_x (player s) = 100" "bombs s = []"
    using run_collect_11 by blast
  have i: "11 < length (stars s)" using s(2) by simp
  have r: "(0::real) \<le> 1 / 2" "(1::real) / 2 \<le> 1 - 1 / 2 ^ 53" by simp_all
  have r52: "(1::real) / 2 \<le> 1 - 1 / 2 ^ 52" by simp
  have i3: "3 < length (stars create)" by (simp add: create_stars)
  from collectStar_respawn[OF i r, of 0] s(3,4,5) r52
  have a: "(\<forall>j<length (stars s). enable (stars (collectStar s 11 (1 / 2) 0) ! j) \<and>
         obj_y (stars (collectStar s 11 (1 / 2) 0) ! j) = 0)"
      "length (bombs (collectStar s 11 (1 / 2) 0)) = 1"
      "400 \<le> obj_x (last (bombs (collectStar s 11 (1 / 2) 0)))"
      "obj_x (last (bombs (collectStar s 11 (1 / 2) 0))) \<le> 800"
    by simp_all
  from collectStar_respawn[OF i3 r, of 0] create_not_last_active
  have b: "bombs (collectStar create 3 (1 / 2) 0) = []"
    by (simp add: create_stars)
  from s i r r52 i3 a b create_not_last_active show ?thesis by auto
qed

theorem collectStar_respawn_counterexample:
  "map_option (obj_x \<circ> player) (run (collect_stars 11) create) = Some 100 \<and>
   0 \<le> largest_random \<and> largest_random < 1 \<and>
   map_option (map obj_x \<circ> bombs)
     (run (collect_stars 11 @ [StarOverlap 11 largest_random 0]) create) = Some [801]"
proof -
  have "0 \<le> largest_random \<and> largest_random < 1" by (simp add: largest_random_def)
  moreover have "map_option (obj_x \<circ> player) (run (collect_stars 11) create) = Some 100"
    by (simp add: eval_defs)
  moreover have "map_option (map obj_x \<circ> bombs)
     (run (collect_stars 11 @ [StarOverlap 11 largest_random 0]) create) = Some [801]"
    by (simp add: eval_defs Between_largest_random)
  ultimately show ?thesis by blast
qed

text \<open>
  C9. In an \<open>update\<close> frame of a game that is not over, the player's horizontal
  velocity is set once, to \<open>-160\<close> when left is down, else to 160 when right is down,
  else to 0; the vertical velocity is set, to \<open>-350\<close>, exactly when up or space is
  down and the player's body touches something below it, and is left as it was
  otherwise.
\<close>

theorem update_sets_velocity:
  assumes "\<not> gameOver s"
  shows "velocityX (player (update c s)) =
           (if left_isDown c then - 160 else if right_isDown c then 160 else 0) \<and>
         velocityY (player (update c s)) =
           (if (up_isDown c \<or> space_isDown c) \<and> touching_down (player s) then - 350
            else velocityY (player s)) \<and>
         (\<forall>v. Call Player (SetVelocityX v) \<in> set (new_calls s (update c s)) \<longleftrightarrow>
            v = (if left_isDown c then - 160 else if right_isDown c then 160 else 0)) \<and>
         (\<forall>v. Call Player (SetVelocityY v) \<in> set (new_calls s (update c s)) \<longleftrightarrow>
            v = - 350 \<and> (up_isDown c \<or> space_isDown c) \<and> touching_down (player s))"
  using assms
  by (auto simp: update_def Let_def new_calls_def each_child_calls)

theorem update_sets_velocity_witness:
  "\<not> gameOver (world_step landed [] [] create) \<and>
   velocityX (player (update keys_left_up (world_step landed [] [] create))) = - 160 \<and>
   velocityY (player (update keys_left_up (world_step landed [] [] create))) = - 350 \<and>
   Call Player (SetVelocityY (- 350))
     \<in> set (new_calls (world_step landed [] [] create)
              (update keys_left_up (world_step landed [] [] create)))"
  using update_sets_velocity[of "world_step landed [] [] create" keys_left_up]
  by (simp add: world_step_flags create_flags keys_left_up_def landed_def world_step_def
      moved_def create_def new_sprite_def)

text \<open>
  C10. In every reachable state the game-over text is visible exactly when the
  game-over flag is set: \<open>create\<close> clears both, \<open>hitBomb\<close> sets both, and no other event
  (the restart, which runs \<open>create\<close>, apart) changes either.
\<close>

theorem gameOverText_follows_gameOver:
  assumes "reachable s"
  shows "gameOverText_visible s = gameOver s \<and>
         \<not> gameOver create \<and> \<not> gameOverText_visible create \<and>
         (\<forall>t j. gameOver (hitBomb t j) \<and> gameOverText_visible (hitBomb t j)) \<and>
         (\<forall>t e t'. fire e t = Some t' \<and> e \<noteq> Restart \<and> (\<forall>j. e \<noteq> BombCollision j) \<longrightarrow>
            gameOver t' = gameOver t \<and> gameOverText_visible t' = gameOverText_visible t)"
proof -
  have "gameOverText_visible s = gameOver s" using assms by (rule reachable_gameOverText)
  moreover have "\<forall>t e t'. fire e t = Some t' \<and> e \<noteq> Restart \<and> (\<forall>j. e \<noteq> BombCollision j) \<longrightarrow>
            gameOver t' = gameOver t \<and> gameOverText_visible t' = gameOverText_visible t"
    using fire_gameOver_flags by blast
  ultimately show ?thesis by (simp add: create_flags hitBomb_flags)
qed

theorem gameOverText_follows_gameOver_witness:
  "\<exists>s. run (collect_stars 12 @ [BombCollision 0]) create = Some s \<and> reachable s \<and>
      gameOver s \<and> gameOverText_visible s \<and>
      fire KeyDownS s = Some (keydown_S s) \<and> KeyDownS \<noteq> Restart \<and>
      (\<forall>j. KeyDownS \<noteq> BombCollision j) \<and>
      gameOver (keydown_S s) = gameOver s \<and>
      gameOverText_visible (keydown_S s) = gameOverText_visible s"
proof -
  obtain s0 where s0: "run (collect_stars 12) create = Some s0" "length (bombs s0) = 1"
    using run_collect_12 by blast
  have r: "run (collect_stars 12 @ [BombCollision 0]) create = Some (hitBomb s0 0)"
    using s0 by (simp add: run_append)
  have re: "reachable (hitBomb s0 0)" using created r by (rule run_reachable)
  have f: "fire KeyDownS (hitBomb s0 0) = Some (keydown_S (hitBomb s0 0))" by simp
  note th = gameOverText_follows_gameOver[OF re]
  from th have a: "gameOverText_visible (hitBomb s0 0) = gameOver (hitBomb s0 0)"
      "gameOver (hitBomb s0 0)" by blast+
  from th have "fire KeyDownS (hitBomb s0 0) = Some (keydown_S (hitBomb s0 0)) \<and>
      KeyDownS \<noteq> Restart \<and> (\<forall>j. KeyDownS \<noteq> BombCollision j) \<longrightarrow>
      gameOver (keydown_S (hitBomb s0 0)) = gameOver (hitBomb s0 0) \<and>
      gameOverText_visible (keydown_S (hitBomb s0 0)) = gameOverText_visible (hitBomb s0 0)"
    by blast
  then have b: "gameOver (keydown_S (hitBomb s0 0)) = gameOver (hitBomb s0 0)"
      "gameOverText_visible (keydown_S (hitBomb s0 0)) = gameOverText_visible (hitBomb s0 0)"
    by simp_all
  from r re f a b show ?thesis by auto
qed

end
